theory Spec2Isabelle
  imports Main "HOL-Library.AList"
begin

section \<open>The file system seen by the script\<close>

text \<open>
  The script reaches the file system through four synchronous calls of Node's \<open>fs\<close>
  module. The file system is a tree below the working directory; a path is the list of its
  components below that directory, so \<open>path.join(dir, folder.name, 'index.md')\<close> is
  \<open>dir @ [name folder, ''index.md'']\<close>. A regular file carries two flags, whether the
  process may read it and whether it may write it, and its text (already decoded as
  UTF-8). A directory carries one flag, whether the process may create entries in it, and
  its entries in enumeration order. Every directory can be listed and traversed.
\<close>

type_synonym path = "string list"

datatype node = File bool bool string | Dir bool "(string \<times> node) list"

datatype error = ENOENT | ENOTDIR | EISDIR | EACCES | YAMLException | ERR_INVALID_ARG_TYPE

fun is_Dir :: "node \<Rightarrow> bool" where
  "is_Dir (Dir w es) = True"
| "is_Dir (File r w b) = False"

fun resolve :: "node \<Rightarrow> path \<Rightarrow> node option" where
  "resolve n [] = Some n"
| "resolve (File r w b) (c # cs) = None"
| "resolve (Dir w es) (c # cs) =
     (case map_of es c of None \<Rightarrow> None | Some n \<Rightarrow> resolve n cs)"

text \<open>\<open>fs.Dirent\<close>, as returned by \<open>readdirSync\<close> with \<open>withFileTypes: true\<close>.\<close>

record dirent =
  name :: string
  isDirectory :: bool

definition dirent_of :: "string \<times> node \<Rightarrow> dirent" where
  "dirent_of e = \<lparr>name = fst e, isDirectory = is_Dir (snd e)\<rparr>"

definition readdirSync :: "node \<Rightarrow> path \<Rightarrow> error + dirent list" where
  "readdirSync fs dir =
     (case resolve fs dir of
        None \<Rightarrow> Inl ENOENT
      | Some (File r w b) \<Rightarrow> Inl ENOTDIR
      | Some (Dir w es) \<Rightarrow> Inr (map dirent_of es))"

definition existsSync :: "node \<Rightarrow> path \<Rightarrow> bool" where
  "existsSync fs p = (resolve fs p \<noteq> None)"

definition readFileSync :: "node \<Rightarrow> path \<Rightarrow> error + string" where
  "readFileSync fs p =
     (case resolve fs p of
        None \<Rightarrow> Inl ENOENT
      | Some (Dir w es) \<Rightarrow> Inl EISDIR
      | Some (File r w b) \<Rightarrow> if r then Inr b else Inl EACCES)"

text \<open>
  \<open>writeFileSync\<close> replaces the text of an existing file that the process may write, or
  creates the file in an existing directory that allows it; a file it creates can be read
  and written. It raises \<open>EACCES\<close> when the permission is missing, \<open>ENOENT\<close> when the
  parent directory is missing, and \<open>EISDIR\<close> when the path names a directory.
\<close>

fun writeFileSync :: "node \<Rightarrow> path \<Rightarrow> string \<Rightarrow> error + node" where
  "writeFileSync (File r w b) [] text = (if w then Inr (File r w text) else Inl EACCES)"
| "writeFileSync (Dir w es) [] text = Inl EISDIR"
| "writeFileSync (File r w b) (c # cs) text = Inl ENOTDIR"
| "writeFileSync (Dir w es) (c # cs) text =
     (case map_of es c of
        None \<Rightarrow>
          if cs = [] then
            (if w then Inr (Dir w (AList.update c (File True True text) es)) else Inl EACCES)
          else Inl ENOENT
      | Some n \<Rightarrow>
          (case writeFileSync n cs text of
             Inl e \<Rightarrow> Inl e
           | Inr n' \<Rightarrow> Inr (Dir w (AList.update c n' es))))"

text \<open>The text of the regular file at a path, whatever its flags.\<close>

definition bytes_at :: "node \<Rightarrow> path \<Rightarrow> string option" where
  "bytes_at fs p = (case resolve fs p of Some (File r w b) \<Rightarrow> Some b | _ \<Rightarrow> None)"

section \<open>JavaScript values\<close>

text \<open>
  A JavaScript number. A finite double is kept as the decimal text that
  \<open>Number.prototype.toString\<close> gives for it (\<open>12\<close>, \<open>1.5\<close>, \<open>-3\<close>, \<open>1e+21\<close>); zero of
  either sign is \<open>0\<close>.
\<close>

datatype jsnum = Finite string | NaN | PosInf | NegInf

text \<open>
  The values that the \<open>data\<close> object of a parsed YAML header can hold, and \<open>undefined\<close> for
  a property that is not there. A YAML timestamp is a \<open>Date\<close> object, kept as the text its
  \<open>toJSON\<close> method returns (the ISO form); a YAML binary is a \<open>Buffer\<close>, kept as its bytes.
\<close>

datatype jsval =
    JUndefined
  | JNull
  | JBool bool
  | JNum jsnum
  | JStr string
  | JArr "jsval list"
  | JObj "(string \<times> jsval) list"
  | JDate string
  | JBuffer "nat list"

text \<open>ToBoolean, which \<open>if (a && b)\<close> applies to both operands.\<close>

fun truthy :: "jsval \<Rightarrow> bool" where
  "truthy JUndefined = False"
| "truthy JNull = False"
| "truthy (JBool b) = b"
| "truthy (JNum (Finite t)) = (t \<noteq> ''0'')"
| "truthy (JNum NaN) = False"
| "truthy (JNum PosInf) = True"
| "truthy (JNum NegInf) = True"
| "truthy (JStr s) = (s \<noteq> [])"
| "truthy (JArr vs) = True"
| "truthy (JObj kvs) = True"
| "truthy (JDate stamp) = True"
| "truthy (JBuffer bs) = True"

type_synonym frontmatter = "(string \<times> jsval) list"

text \<open>Property access \<open>data.key\<close> on the object the parser returns.\<close>

definition get_prop :: "frontmatter \<Rightarrow> string \<Rightarrow> jsval" where
  "get_prop data k = (case map_of data k of None \<Rightarrow> JUndefined | Some v \<Rightarrow> v)"

section \<open>JSON.stringify with an indent of two spaces\<close>

text \<open>The character of a digit below sixteen; the first ten also serve for decimal numbers.\<close>

definition hex_digit :: "nat \<Rightarrow> char" where
  "hex_digit n = ''0123456789abcdef'' ! (n mod 16)"

text \<open>QuoteJSONString, on the bytes of the UTF-8 text.\<close>

definition quote_char :: "char \<Rightarrow> string" where
  "quote_char c =
     (if c = CHR 0x08 then [CHR 0x5C, CHR ''b'']
      else if c = CHR 0x09 then [CHR 0x5C, CHR ''t'']
      else if c = CHR 0x0A then [CHR 0x5C, CHR ''n'']
      else if c = CHR 0x0C then [CHR 0x5C, CHR ''f'']
      else if c = CHR 0x0D then [CHR 0x5C, CHR ''r'']
      else if c = CHR 0x22 then [CHR 0x5C, CHR 0x22]
      else if c = CHR 0x5C then [CHR 0x5C, CHR 0x5C]
      else if of_char c < (32::nat) then
        [CHR 0x5C, CHR ''u'', CHR ''0'', CHR ''0'',
         hex_digit (of_char c div 16), hex_digit (of_char c)]
      else [c])"

definition quote :: "string \<Rightarrow> string" where
  "quote s = [CHR 0x22] @ concat (map quote_char s) @ [CHR 0x22]"

text \<open>
  The decimal text of a natural number, as a template literal or \<open>JSON.stringify\<close> writes
  an array length or a byte.
\<close>

fun nat_digits :: "nat \<Rightarrow> string" where
  "nat_digits n =
     (if n < 10 then [hex_digit n] else nat_digits (n div 10) @ [hex_digit (n mod 10)])"

fun join :: "string \<Rightarrow> string list \<Rightarrow> string" where
  "join sep [] = []"
| "join sep [x] = x"
| "join sep (x # y # ys) = x @ sep @ join sep (y # ys)"

text \<open>
  SerializeJSONProperty with gap \<open>''  ''\<close>; \<open>None\<close> is the result \<open>undefined\<close>. An
  array writes \<open>null\<close> for such an element, an object leaves the property out. A number
  that is not finite is written \<open>null\<close>. A \<open>Date\<close> is written as the string its \<open>toJSON\<close>
  returns, a \<open>Buffer\<close> as the object \<open>{type: 'Buffer', data: [...]}\<close> its \<open>toJSON\<close>
  returns.
\<close>

fun serialize :: "string \<Rightarrow> jsval \<Rightarrow> string option" where
  "serialize indent JUndefined = None"
| "serialize indent JNull = Some ''null''"
| "serialize indent (JBool b) = Some (if b then ''true'' else ''false'')"
| "serialize indent (JNum (Finite t)) = Some t"
| "serialize indent (JNum NaN) = Some ''null''"
| "serialize indent (JNum PosInf) = Some ''null''"
| "serialize indent (JNum NegInf) = Some ''null''"
| "serialize indent (JStr s) = Some (quote s)"
| "serialize indent (JArr vs) =
     (let stepback = indent; indent' = indent @ ''  '';
          partial = map (\<lambda>v. case serialize indent' v of None \<Rightarrow> ''null'' | Some s \<Rightarrow> s) vs
      in if partial = [] then Some ''[]''
         else Some (''['' @ [CHR 0x0A] @ indent' @ join ('','' @ [CHR 0x0A] @ indent') partial
                    @ [CHR 0x0A] @ stepback @ '']''))"
| "serialize indent (JObj kvs) =
     (let stepback = indent; indent' = indent @ ''  '';
          partial = concat (map (\<lambda>kv. case serialize indent' (snd kv) of
                                        None \<Rightarrow> []
                                      | Some s \<Rightarrow> [quote (fst kv) @ '': '' @ s]) kvs)
      in if partial = [] then Some ''{}''
         else Some (''{'' @ [CHR 0x0A] @ indent' @ join ('','' @ [CHR 0x0A] @ indent') partial
                    @ [CHR 0x0A] @ stepback @ ''}''))"
| "serialize indent (JDate stamp) = Some (quote stamp)"
| "serialize indent (JBuffer bs) =
     (let stepback = indent; indent' = indent @ ''  ''; indent'' = indent' @ ''  '';
          data = (if bs = [] then ''[]''
                  else ''['' @ [CHR 0x0A] @ indent''
                       @ join ('','' @ [CHR 0x0A] @ indent'') (map nat_digits bs)
                       @ [CHR 0x0A] @ indent' @ '']'');
          partial = [quote ''type'' @ '': '' @ quote ''Buffer'', quote ''data'' @ '': '' @ data]
      in Some (''{'' @ [CHR 0x0A] @ indent' @ join ('','' @ [CHR 0x0A] @ indent') partial
               @ [CHR 0x0A] @ stepback @ ''}''))"

definition JSON_stringify :: "jsval \<Rightarrow> string option" where
  "JSON_stringify v = serialize [] v"

section \<open>The script\<close>

text \<open>
  \<open>matter\<close> is the gray-matter package, which is not part of the repository: it is a
  parameter of the model, a function from the text of a document to the \<open>data\<close> object of
  its header, or to the exception it raises.
\<close>

type_synonym matter = "string \<Rightarrow> error + frontmatter"

definition postsDir :: path where
  "postsDir = [''src'', ''content'', ''blog'']"

definition outputFile :: path where
  "outputFile = [''public'', ''posts.json'']"

record post =
  title :: jsval
  summary :: jsval
  url :: string

text \<open>Every call into \<open>fs\<close> and \<open>console\<close> is recorded, in the order the script makes them.\<close>

datatype event =
    EvReaddir path
  | EvExists path
  | EvRead path
  | EvWrite path string
  | EvLog string

fun is_write :: "event \<Rightarrow> bool" where
  "is_write (EvWrite p t) = True"
| "is_write ev = False"

text \<open>
  The body of the \<open>for\<close> loop for one folder: the records it pushes (none or one), or the
  exception that leaves the loop, and the calls it made.
\<close>

definition visit :: "matter \<Rightarrow> node \<Rightarrow> path \<Rightarrow> dirent \<Rightarrow> (error + post list) \<times> event list" where
  "visit m fs dir folder =
     (let postFile = dir @ [name folder, ''index.md''] in
      if existsSync fs postFile then
        (case readFileSync fs postFile of
           Inl e \<Rightarrow> (Inl e, [EvExists postFile, EvRead postFile])
         | Inr content \<Rightarrow>
             (case m content of
                Inl e \<Rightarrow> (Inl e, [EvExists postFile, EvRead postFile])
              | Inr data \<Rightarrow>
                  if truthy (get_prop data ''title'') \<and> truthy (get_prop data ''summary'') then
                    (let url = ''/blog/'' @ name folder in
                     (Inr [\<lparr>title = get_prop data ''title'',
                            summary = get_prop data ''summary'',
                            url = url\<rparr>],
                      [EvExists postFile, EvRead postFile]))
                  else (Inr [], [EvExists postFile, EvRead postFile])))
      else (Inr [], [EvExists postFile]))"

fun for_folders ::
  "matter \<Rightarrow> node \<Rightarrow> path \<Rightarrow> dirent list \<Rightarrow> post list \<Rightarrow> (error + post list) \<times> event list" where
  "for_folders m fs dir [] posts = (Inr posts, [])"
| "for_folders m fs dir (folder # rest) posts =
     (case visit m fs dir folder of
        (Inl e, evs) \<Rightarrow> (Inl e, evs)
      | (Inr new, evs) \<Rightarrow>
          (case for_folders m fs dir rest (posts @ new) of
             (r, evs') \<Rightarrow> (r, evs @ evs')))"

definition getPostsFromDir :: "matter \<Rightarrow> node \<Rightarrow> path \<Rightarrow> (error + post list) \<times> event list" where
  "getPostsFromDir m fs dir =
     (case readdirSync fs dir of
        Inl e \<Rightarrow> (Inl e, [EvReaddir dir])
      | Inr entries \<Rightarrow>
          (case for_folders m fs dir (filter isDirectory entries) [] of
             (r, evs) \<Rightarrow> (r, EvReaddir dir # evs)))"

definition post_object :: "post \<Rightarrow> jsval" where
  "post_object p = JObj [(''title'', title p), (''summary'', summary p), (''url'', JStr (url p))]"

definition log_line :: "nat \<Rightarrow> string" where
  "log_line n =
     [CHR 0xE2, CHR 0x9C, CHR 0x85] @ '' posts.json generated with '' @ nat_digits n @ '' posts''"

text \<open>
  One run of the script. An exception nobody catches ends the process with status 1;
  otherwise the status is 0.
\<close>

record run =
  status :: nat
  files :: node
  events :: "event list"

definition main :: "matter \<Rightarrow> node \<Rightarrow> run" where
  "main m fs =
     (case getPostsFromDir m fs postsDir of
        (Inl e, evs) \<Rightarrow> \<lparr>status = 1, files = fs, events = evs\<rparr>
      | (Inr posts, evs) \<Rightarrow>
          (case JSON_stringify (JArr (map post_object posts)) of
             None \<Rightarrow> \<lparr>status = 1, files = fs, events = evs\<rparr>
           | Some text \<Rightarrow>
               (case writeFileSync fs outputFile text of
                  Inl e \<Rightarrow> \<lparr>status = 1, files = fs, events = evs @ [EvWrite outputFile text]\<rparr>
                | Inr fs' \<Rightarrow>
                    \<lparr>status = 0, files = fs',
                     events = evs @ [EvWrite outputFile text, EvLog (log_line (length posts))]\<rparr>)))"

section \<open>Concrete documents and file systems\<close>

text \<open>
  The concrete runs below use eight documents. \<open>sample_matter\<close> gives the \<open>data\<close> object
  gray-matter returns for each of them: a header with both fields, a header without
  \<open>summary\<close>, a header whose \<open>title\<close> is the YAML boolean \<open>false\<close>, a header that has
  a \<open>url\<close> field of its own, a header that is not valid YAML (the parser raises), a
  text with no header at all, a header whose \<open>title\<close> is the YAML float \<open>.inf\<close>, and a
  header whose \<open>title\<close> is a YAML timestamp. No other text occurs in the runs.
\<close>

definition doc_post :: string where
  "doc_post = ''---'' @ [CHR 0x0A] @ ''title: A'' @ [CHR 0x0A] @ ''summary: B'' @ [CHR 0x0A]
     @ ''---'' @ [CHR 0x0A] @ ''Text''"

definition doc_draft :: string where
  "doc_draft = ''---'' @ [CHR 0x0A] @ ''title: C'' @ [CHR 0x0A] @ ''---'' @ [CHR 0x0A]"

definition doc_flag :: string where
  "doc_flag = ''---'' @ [CHR 0x0A] @ ''title: false'' @ [CHR 0x0A] @ ''summary: S'' @ [CHR 0x0A]
     @ ''---'' @ [CHR 0x0A]"

definition doc_custom :: string where
  "doc_custom = ''---'' @ [CHR 0x0A] @ ''title: T'' @ [CHR 0x0A] @ ''summary: <b>S</b>''
     @ [CHR 0x0A] @ ''url: /custom'' @ [CHR 0x0A] @ ''---'' @ [CHR 0x0A]"

definition doc_broken :: string where
  "doc_broken = ''---'' @ [CHR 0x0A] @ ''title: ['' @ [CHR 0x0A] @ ''---'' @ [CHR 0x0A]"

definition doc_plain :: string where
  "doc_plain = ''Just text''"

definition doc_inf :: string where
  "doc_inf = ''---'' @ [CHR 0x0A] @ ''title: .inf'' @ [CHR 0x0A] @ ''summary: S'' @ [CHR 0x0A]
     @ ''---'' @ [CHR 0x0A]"

definition doc_date :: string where
  "doc_date = ''---'' @ [CHR 0x0A] @ ''title: 2024-01-01'' @ [CHR 0x0A] @ ''summary: S''
     @ [CHR 0x0A] @ ''---'' @ [CHR 0x0A]"

definition sample_matter :: matter where
  "sample_matter content =
     (if content = doc_post then Inr [(''title'', JStr ''A''), (''summary'', JStr ''B'')]
      else if content = doc_draft then Inr [(''title'', JStr ''C'')]
      else if content = doc_flag then Inr [(''title'', JBool False), (''summary'', JStr ''S'')]
      else if content = doc_custom then
        Inr [(''title'', JStr ''T''), (''summary'', JStr ''<b>S</b>''), (''url'', JStr ''/custom'')]
      else if content = doc_broken then Inl YAMLException
      else if content = doc_inf then Inr [(''title'', JNum PosInf), (''summary'', JStr ''S'')]
      else if content = doc_date then
        Inr [(''title'', JDate ''2024-01-01T00:00:00.000Z''), (''summary'', JStr ''S'')]
      else Inr [])"

text \<open>A working directory with \<open>public/posts.json\<close> from an earlier run and the given blog folder.\<close>

definition site :: "(string \<times> node) list \<Rightarrow> node" where
  "site blog =
     Dir True [(''public'', Dir True [(''posts.json'', File True True ''old'')]),
          (''src'', Dir True [(''content'', Dir True [(''blog'', Dir True blog)])])]"

text \<open>A working directory whose content root is missing.\<close>

definition fs_no_root :: node where
  "fs_no_root =
     Dir True [(''public'', Dir True [(''posts.json'', File True True ''old'')]),
          (''src'', Dir True [(''content'', Dir True [])])]"

text \<open>A post and a draft without \<open>summary\<close>.\<close>

definition fs_two :: node where
  "fs_two = site [(''01-post'', Dir True [(''index.md'', File True True doc_post)]),
                  (''02-draft'', Dir True [(''index.md'', File True True doc_draft)])]"

text \<open>One document, whose \<open>title\<close> is \<open>false\<close>.\<close>

definition fs_flag :: node where
  "fs_flag = site [(''05-flag'', Dir True [(''index.md'', File True True doc_flag)])]"

text \<open>An unreadable document beside a valid one; a document without a header beside a valid
  one; a document whose header is not valid YAML beside a valid one.\<close>

definition fs_locked :: node where
  "fs_locked = site [(''01-locked'', Dir True [(''index.md'', File False True doc_post)]),
                     (''02-post'', Dir True [(''index.md'', File True True doc_post)])]"

definition fs_plain :: node where
  "fs_plain = site [(''01-plain'', Dir True [(''index.md'', File True True doc_plain)]),
                    (''02-post'', Dir True [(''index.md'', File True True doc_post)])]"

definition fs_broken :: node where
  "fs_broken = site [(''01-broken'', Dir True [(''index.md'', File True True doc_broken)]),
                     (''02-post'', Dir True [(''index.md'', File True True doc_post)])]"

text \<open>A document whose header has a \<open>url\<close> field of its own.\<close>

definition fs_custom :: node where
  "fs_custom = site [(''04-custom'', Dir True [(''index.md'', File True True doc_custom)])]"

text \<open>An empty root; a root with a draft and a folder without a document; a root whose only
  document is unreadable; a working directory without \<open>public\<close>.\<close>

definition fs_empty :: node where
  "fs_empty = site []"

definition fs_drafts :: node where
  "fs_drafts = site [(''02-draft'', Dir True [(''index.md'', File True True doc_draft)]),
                     (''03-empty'', Dir True [])]"

definition fs_only_locked :: node where
  "fs_only_locked = site [(''01-locked'', Dir True [(''index.md'', File False True doc_post)])]"

definition fs_no_public :: node where
  "fs_no_public = Dir True [(''src'', Dir True [(''content'', Dir True [(''blog'', Dir True [])])])]"

text \<open>
  Two roots with the same three subdirectories and the same \<open>index.md\<close> in each; the second
  also has plain files directly under the root, one of them named \<open>index.md\<close>, and
  documents nested one level deeper.
\<close>

definition fs_three :: node where
  "fs_three = site [(''01-post'', Dir True [(''index.md'', File True True doc_post)]),
                    (''02-draft'', Dir True [(''index.md'', File True True doc_draft)]),
                    (''03-assets'', Dir True [(''logo.png'', File True True ''png'')])]"

definition fs_extra :: node where
  "fs_extra = site [(''index.md'', File True True doc_custom),
                    (''01-post'', Dir True [(''index.md'', File True True doc_post),
                                       (''old'', Dir True [(''index.md'', File True True doc_custom)])]),
                    (''notes.txt'', File True True ''x''),
                    (''02-draft'', Dir True [(''index.md'', File True True doc_draft)]),
                    (''03-assets'', Dir True [(''deep'', Dir True [(''index.md'', File True True doc_post)])])]"

text \<open>The content of \<open>fs_two\<close> in a working directory that has no output file yet.\<close>

definition fs_two_fresh :: node where
  "fs_two_fresh =
     Dir True [(''src'', Dir True [(''content'', Dir True [(''blog'', Dir True
            [(''01-post'', Dir True [(''index.md'', File True True doc_post)]),
             (''02-draft'', Dir True [(''index.md'', File True True doc_draft)])])])]),
          (''public'', Dir True [(''robots.txt'', File True True ''x'')])]"

text \<open>An empty root beside an output file that the process may not write.\<close>

definition fs_readonly :: node where
  "fs_readonly =
     Dir True [(''public'', Dir True [(''posts.json'', File True False ''old'')]),
               (''src'', Dir True [(''content'', Dir True [(''blog'', Dir True [])])])]"

text \<open>A document whose \<open>title\<close> is infinite and one whose \<open>title\<close> is a date.\<close>

definition fs_inf :: node where
  "fs_inf = site [(''06-inf'', Dir True [(''index.md'', File True True doc_inf)]),
                  (''07-date'', Dir True [(''index.md'', File True True doc_date)])]"

section \<open>Properties of the file system calls\<close>

lemma resolve_append:
  "resolve n (p @ q) = (case resolve n p of None \<Rightarrow> None | Some n' \<Rightarrow> resolve n' q)"
  by (induction n p rule: resolve.induct) (auto split: option.splits)

lemma bytes_at_simps:
  "bytes_at (File r w b) [] = Some b"
  "bytes_at (Dir w es) [] = None"
  "bytes_at (File r w b) (c # cs) = None"
  "bytes_at (Dir w es) (c # cs) = (case map_of es c of None \<Rightarrow> None | Some n \<Rightarrow> bytes_at n cs)"
  by (simp_all add: bytes_at_def split: option.splits)

lemma write_resolve_other:
  "writeFileSync n p t = Inr n' \<Longrightarrow> p \<noteq> [] \<Longrightarrow> q \<noteq> [] \<Longrightarrow> hd p \<noteq> hd q \<Longrightarrow>
   resolve n' q = resolve n q"
proof (induction n p t arbitrary: n' rule: writeFileSync.induct)
  case (4 w es c cs t)
  then show ?case
    by (cases q) (auto split: option.splits sum.splits if_splits simp: update_conv')
qed (auto split: if_splits)

lemma write_bytes:
  "writeFileSync n p t = Inr n' \<Longrightarrow> bytes_at n' p = Some t"
proof (induction n p t arbitrary: n' rule: writeFileSync.induct)
  case (4 w es c cs t)
  then show ?case
    by (auto simp: bytes_at_simps update_conv' split: option.splits sum.splits if_splits)
qed (auto simp: bytes_at_simps split: if_splits)

lemma write_idem:
  "writeFileSync n p t = Inr n' \<Longrightarrow> writeFileSync n' p t = Inr n'"
proof (induction n p t arbitrary: n' rule: writeFileSync.induct)
  case (4 w es c cs t)
  then show ?case
    by (auto simp: update_conv' split: option.splits sum.splits if_splits)
qed (auto split: if_splits)

section \<open>Properties of the loop\<close>

lemma visit_events:
  "snd (visit m fs dir f) =
     (if existsSync fs (dir @ [name f, ''index.md''])
      then [EvExists (dir @ [name f, ''index.md'']), EvRead (dir @ [name f, ''index.md''])]
      else [EvExists (dir @ [name f, ''index.md''])])"
  by (simp add: visit_def Let_def split: sum.splits)

lemma visit_posts:
  assumes "fst (visit m fs dir f) = Inr ps"
  shows "ps = [] \<or> (\<exists>p. ps = [p] \<and> url p = ''/blog/'' @ name f)"
  using assms by (auto simp: visit_def Let_def split: sum.splits if_splits)

lemma for_folders_Inr:
  "fst (for_folders m fs dir fl posts) = Inr res \<longleftrightarrow>
     (\<forall>f\<in>set fl. \<exists>ps. fst (visit m fs dir f) = Inr ps) \<and>
     res = posts @ concat (map (\<lambda>f. case fst (visit m fs dir f) of Inl e \<Rightarrow> [] | Inr ps \<Rightarrow> ps) fl)"
proof (induction fl arbitrary: posts)
  case Nil
  show ?case by auto
next
  case (Cons f fl)
  obtain r evs where v: "visit m fs dir f = (r, evs)" by (cases "visit m fs dir f")
  show ?case
  proof (cases r)
    case (Inl e)
    with v show ?thesis by simp
  next
    case (Inr new)
    obtain r' evs' where rest: "for_folders m fs dir fl (posts @ new) = (r', evs')"
      by (cases "for_folders m fs dir fl (posts @ new)")
    have "fst (for_folders m fs dir (f # fl) posts) = fst (for_folders m fs dir fl (posts @ new))"
      using v Inr rest by simp
    then show ?thesis using Cons.IH [of "posts @ new"] v Inr by auto
  qed
qed

lemma for_folders_events_Inr:
  "fst (for_folders m fs dir fl posts) = Inr res \<Longrightarrow>
   snd (for_folders m fs dir fl posts) = concat (map (\<lambda>f. snd (visit m fs dir f)) fl)"
proof (induction fl arbitrary: posts)
  case Nil
  show ?case by simp
next
  case (Cons f fl)
  obtain r evs where v: "visit m fs dir f = (r, evs)" by (cases "visit m fs dir f")
  show ?case
  proof (cases r)
    case (Inl e)
    with v Cons.prems show ?thesis by simp
  next
    case (Inr new)
    obtain r' evs' where rest: "for_folders m fs dir fl (posts @ new) = (r', evs')"
      by (cases "for_folders m fs dir fl (posts @ new)")
    with v Inr Cons.prems have "r' = Inr res" by simp
    with Cons.IH [of "posts @ new"] rest
    have "evs' = concat (map (\<lambda>f. snd (visit m fs dir f)) fl)" by simp
    with v Inr rest show ?thesis by simp
  qed
qed

lemma for_folders_events_prefix:
  "\<exists>rest. snd (for_folders m fs dir fl posts) @ rest
     = concat (map (\<lambda>f. snd (visit m fs dir f)) fl)"
proof (induction fl arbitrary: posts)
  case Nil
  show ?case by simp
next
  case (Cons f fl)
  obtain r evs where v: "visit m fs dir f = (r, evs)" by (cases "visit m fs dir f")
  show ?case
  proof (cases r)
    case (Inl e)
    with v show ?thesis by simp
  next
    case (Inr new)
    obtain r' evs' where rest: "for_folders m fs dir fl (posts @ new) = (r', evs')"
      by (cases "for_folders m fs dir fl (posts @ new)")
    from Cons.IH [of "posts @ new"] rest obtain tl where
      "evs' @ tl = concat (map (\<lambda>f. snd (visit m fs dir f)) fl)" by auto
    with v Inr rest show ?thesis by auto
  qed
qed

lemma for_folders_Inl:
  "(\<exists>e. fst (for_folders m fs dir fl posts) = Inl e) \<longleftrightarrow>
     (\<exists>f\<in>set fl. \<exists>e. fst (visit m fs dir f) = Inl e)"
proof -
  have "(\<exists>e. fst (for_folders m fs dir fl posts) = Inl e) \<longleftrightarrow>
        \<not> (\<exists>res. fst (for_folders m fs dir fl posts) = Inr res)"
    by (cases "fst (for_folders m fs dir fl posts)") auto
  also have "\<dots> \<longleftrightarrow> \<not> (\<forall>f\<in>set fl. \<exists>ps. fst (visit m fs dir f) = Inr ps)"
    by (simp add: for_folders_Inr)
  also have "\<dots> \<longleftrightarrow> (\<exists>f\<in>set fl. \<exists>e. fst (visit m fs dir f) = Inl e)"
    by (metis sum.exhaust sum.distinct(1))
  finally show ?thesis .
qed

lemma serialize_JArr: "\<exists>s. serialize ind (JArr vs) = Some s"
  by (simp add: Let_def)

lemma stringify_empty: "JSON_stringify (JArr []) = Some ''[]''"
  by (simp add: JSON_stringify_def)

lemma getPosts_Inr:
  assumes "readdirSync fs dir = Inr entries"
  shows "fst (getPostsFromDir m fs dir) = Inr posts \<longleftrightarrow>
     (\<forall>f\<in>set entries. isDirectory f \<longrightarrow> (\<exists>ps. fst (visit m fs dir f) = Inr ps)) \<and>
     posts = concat (map (\<lambda>f. case fst (visit m fs dir f) of Inl e \<Rightarrow> [] | Inr ps \<Rightarrow> ps)
                         (filter isDirectory entries))"
proof -
  have "fst (getPostsFromDir m fs dir) = fst (for_folders m fs dir (filter isDirectory entries) [])"
    using assms by (simp add: getPostsFromDir_def split: prod.splits)
  then show ?thesis
    using for_folders_Inr [of m fs dir "filter isDirectory entries" "[]" posts] by auto
qed

lemma getPosts_readdir:
  assumes "fst (getPostsFromDir m fs dir) = Inr posts"
  shows "\<exists>entries. readdirSync fs dir = Inr entries"
  using assms by (cases "readdirSync fs dir") (auto simp: getPostsFromDir_def)

lemma visit_Inr_cases:
  assumes "fst (visit m fs dir f) = Inr ps"
  shows "(\<not> existsSync fs (dir @ [name f, ''index.md'']) \<and> ps = []) \<or>
         (existsSync fs (dir @ [name f, ''index.md'']) \<and>
          (\<exists>content data. readFileSync fs (dir @ [name f, ''index.md'']) = Inr content \<and>
             m content = Inr data \<and>
             ps = (if truthy (get_prop data ''title'') \<and> truthy (get_prop data ''summary'')
                   then [\<lparr>title = get_prop data ''title'', summary = get_prop data ''summary'',
                          url = ''/blog/'' @ name f\<rparr>]
                   else [])))"
  using assms by (auto simp: visit_def Let_def split: sum.splits if_splits)

text \<open>
  When every element of \<open>g y\<close> carries the key of \<open>y\<close> and the keys are pairwise
  distinct, selecting by the key of \<open>x\<close> gives back \<open>g x\<close>.
\<close>

lemma filter_concat_one:
  assumes "distinct (map key xs)" and "x \<in> set xs"
    and "\<And>y p. y \<in> set xs \<Longrightarrow> p \<in> set (g y) \<Longrightarrow> tag p = pre @ key y"
  shows "filter (\<lambda>p. tag p = pre @ key x) (concat (map g xs)) = g x"
  using assms
proof (induction xs)
  case Nil
  then show ?case by simp
next
  case (Cons y ys)
  show ?case
  proof (cases "x = y")
    case True
    have all: "filter (\<lambda>p. tag p = pre @ key x) (g y) = g y"
      using Cons.prems(3) [of y] True by (simp add: filter_id_conv)
    have "\<And>z p. z \<in> set ys \<Longrightarrow> p \<in> set (g z) \<Longrightarrow> tag p \<noteq> pre @ key x"
    proof -
      fix z p assume z: "z \<in> set ys" and p: "p \<in> set (g z)"
      then have "tag p = pre @ key z" using Cons.prems(3) [of z p] by simp
      moreover have "key z \<noteq> key x" using z True Cons.prems(1) by (auto simp: image_iff)
      ultimately show "tag p \<noteq> pre @ key x" by simp
    qed
    then have "filter (\<lambda>p. tag p = pre @ key x) (concat (map g ys)) = []"
      by (auto simp: filter_empty_conv)
    with all show ?thesis using True by simp
  next
    case False
    then have xin: "x \<in> set ys" using Cons.prems(2) by simp
    have "key y \<noteq> key x" using xin Cons.prems(1) by (auto simp: image_iff)
    then have "filter (\<lambda>p. tag p = pre @ key x) (g y) = []"
      using Cons.prems(3) [of y] by (auto simp: filter_empty_conv)
    moreover have "filter (\<lambda>p. tag p = pre @ key x) (concat (map g ys)) = g x"
      using Cons.IH xin Cons.prems(1,3) by simp
    ultimately show ?thesis by simp
  qed
qed

lemma visit_raises:
  assumes "existsSync fs (dir @ [name f, ''index.md''])"
    and "readFileSync fs (dir @ [name f, ''index.md'']) = Inl e
         \<or> (readFileSync fs (dir @ [name f, ''index.md'']) = Inr c \<and> m c = Inl e)"
  shows "fst (visit m fs dir f) = Inl e"
  using assms by (auto simp: visit_def Let_def)

lemma visit_empty_data:
  assumes "readFileSync fs (dir @ [name f, ''index.md'']) = Inr c" and "m c = Inr []"
  shows "visit m fs dir f = (Inr [], [EvExists (dir @ [name f, ''index.md'']),
                                        EvRead (dir @ [name f, ''index.md''])])"
proof -
  have "existsSync fs (dir @ [name f, ''index.md''])"
    using assms(1) by (auto simp: existsSync_def readFileSync_def split: option.splits)
  then show ?thesis using assms by (simp add: visit_def Let_def get_prop_def)
qed

lemma getPosts_unfold:
  assumes "readdirSync fs dir = Inr entries"
  shows "getPostsFromDir m fs dir =
     (fst (for_folders m fs dir (filter isDirectory entries) []),
      EvReaddir dir # snd (for_folders m fs dir (filter isDirectory entries) []))"
  using assms by (simp add: getPostsFromDir_def split: prod.splits)

lemma getPosts_no_write: "EvWrite p t \<notin> set (snd (getPostsFromDir m fs dir))"
proof -
  have v: "\<And>f. EvWrite p t \<notin> set (snd (visit m fs dir f))" by (simp add: visit_events)
  have pre: "\<And>fl posts. EvWrite p t \<notin> set (snd (for_folders m fs dir fl posts))"
  proof
    fix fl posts assume a: "EvWrite p t \<in> set (snd (for_folders m fs dir fl posts))"
    obtain rest where "snd (for_folders m fs dir fl posts) @ rest
        = concat (map (\<lambda>f. snd (visit m fs dir f)) fl)"
      using for_folders_events_prefix by blast
    then have "set (snd (for_folders m fs dir fl posts))
        \<subseteq> set (concat (map (\<lambda>f. snd (visit m fs dir f)) fl))"
      by (metis set_append Un_upper1)
    with a have "EvWrite p t \<in> set (concat (map (\<lambda>f. snd (visit m fs dir f)) fl))" by blast
    with v show False by auto
  qed
  show ?thesis
  proof (cases "readdirSync fs dir")
    case (Inl e)
    then show ?thesis by (simp add: getPostsFromDir_def)
  next
    case (Inr entries)
    show ?thesis using pre by (simp add: getPosts_unfold [OF Inr])
  qed
qed

lemma main_abort:
  assumes "fst (getPostsFromDir m fs postsDir) = Inl e"
  shows "status (main m fs) = 1 \<and> files (main m fs) = fs
         \<and> events (main m fs) = snd (getPostsFromDir m fs postsDir)"
  using assms by (cases "getPostsFromDir m fs postsDir") (simp add: main_def)

lemma visit_cong:
  assumes "resolve fs (dir @ [name f, ''index.md'']) = resolve fs' (dir @ [name f, ''index.md''])"
  shows "visit m fs dir f = visit m fs' dir f"
proof -
  have e: "existsSync fs (dir @ [name f, ''index.md''])
         = existsSync fs' (dir @ [name f, ''index.md''])"
    using assms by (simp add: existsSync_def)
  have r: "readFileSync fs (dir @ [name f, ''index.md''])
         = readFileSync fs' (dir @ [name f, ''index.md''])"
    using assms by (simp add: readFileSync_def)
  show ?thesis by (simp add: visit_def Let_def e r)
qed

lemma for_folders_cong:
  assumes "\<forall>f\<in>set fl. resolve fs (dir @ [name f, ''index.md''])
                      = resolve fs' (dir @ [name f, ''index.md''])"
  shows "for_folders m fs dir fl posts = for_folders m fs' dir fl posts"
  using assms
proof (induction fl arbitrary: posts)
  case Nil
  show ?case by simp
next
  case (Cons f fl)
  have "visit m fs dir f = visit m fs' dir f" using Cons.prems by (intro visit_cong) simp
  moreover have "\<And>ps. for_folders m fs dir fl ps = for_folders m fs' dir fl ps"
    using Cons.IH Cons.prems by simp
  ultimately show ?case by (simp split: prod.splits sum.splits)
qed

lemma getPosts_cong_root:
  assumes "resolve fs dir = resolve fs' dir"
  shows "getPostsFromDir m fs dir = getPostsFromDir m fs' dir"
proof -
  have rd: "readdirSync fs dir = readdirSync fs' dir" using assms by (simp add: readdirSync_def)
  have "\<And>q. resolve fs (dir @ q) = resolve fs' (dir @ q)"
    using assms by (simp add: resolve_append)
  then have "\<And>fl posts. for_folders m fs dir fl posts = for_folders m fs' dir fl posts"
    by (intro for_folders_cong) simp
  with rd show ?thesis by (simp add: getPostsFromDir_def split: sum.splits)
qed

lemma main_cases:
  obtains (abort) e where "fst (getPostsFromDir m fs postsDir) = Inl e"
      "main m fs = \<lparr>status = 1, files = fs, events = snd (getPostsFromDir m fs postsDir)\<rparr>"
  | (write_failed) posts json e where "fst (getPostsFromDir m fs postsDir) = Inr posts"
      "JSON_stringify (JArr (map post_object posts)) = Some json"
      "writeFileSync fs outputFile json = Inl e"
      "main m fs = \<lparr>status = 1, files = fs,
         events = snd (getPostsFromDir m fs postsDir) @ [EvWrite outputFile json]\<rparr>"
  | (written) posts json fs' where "fst (getPostsFromDir m fs postsDir) = Inr posts"
      "JSON_stringify (JArr (map post_object posts)) = Some json"
      "writeFileSync fs outputFile json = Inr fs'"
      "main m fs = \<lparr>status = 0, files = fs',
         events = snd (getPostsFromDir m fs postsDir)
                  @ [EvWrite outputFile json, EvLog (log_line (length posts))]\<rparr>"
proof -
  obtain r evs where g: "getPostsFromDir m fs postsDir = (r, evs)"
    by (cases "getPostsFromDir m fs postsDir")
  show ?thesis
  proof (cases r)
    case (Inl e)
    with g abort [of e] show ?thesis by (simp add: main_def)
  next
    case (Inr posts)
    obtain json where t: "JSON_stringify (JArr (map post_object posts)) = Some json"
      using serialize_JArr [of "[]" "map post_object posts"] by (auto simp: JSON_stringify_def)
    show ?thesis
    proof (cases "writeFileSync fs outputFile json")
      case (Inl e)
      with g \<open>r = Inr posts\<close> t write_failed [of posts json e] show ?thesis
        by (simp add: main_def)
    next
      case (Inr fs')
      with g \<open>r = Inr posts\<close> t written [of posts json fs'] show ?thesis
        by (simp add: main_def)
    qed
  qed
qed

lemma main_idem: "main m (files (main m fs)) = main m fs"
proof (cases rule: main_cases [of m fs])
  case (abort e)
  then show ?thesis by simp
next
  case (write_failed posts json e)
  then show ?thesis by simp
next
  case (written posts json fs')
  have "resolve fs' postsDir = resolve fs postsDir"
    using write_resolve_other [OF written(3)] by (simp add: outputFile_def postsDir_def)
  then have g: "getPostsFromDir m fs' postsDir = getPostsFromDir m fs postsDir"
    by (rule getPosts_cong_root)
  obtain evs where g0: "getPostsFromDir m fs postsDir = (Inr posts, evs)"
    using written(1) by (cases "getPostsFromDir m fs postsDir") auto
  have "main m fs' = \<lparr>status = 0, files = fs',
         events = evs @ [EvWrite outputFile json, EvLog (log_line (length posts))]\<rparr>"
    using g g0 written(2) write_idem [OF written(3)] by (simp add: main_def)
  with written(4) g0 show ?thesis by simp
qed

lemma visit_events_mem:
  assumes "ev \<in> set (concat (map (\<lambda>f. snd (visit m fs dir f)) fl))"
  shows "\<exists>f\<in>set fl. ev = EvExists (dir @ [name f, ''index.md''])
                    \<or> ev = EvRead (dir @ [name f, ''index.md''])"
  using assms by (auto simp: visit_events split: if_splits)

lemma getPosts_events_mem:
  assumes "readdirSync fs dir = Inr entries" and "ev \<in> set (snd (getPostsFromDir m fs dir))"
  shows "ev = EvReaddir dir \<or>
         (\<exists>f\<in>set entries. isDirectory f \<and>
            (ev = EvExists (dir @ [name f, ''index.md''])
             \<or> ev = EvRead (dir @ [name f, ''index.md''])))"
proof -
  let ?fl = "filter isDirectory entries"
  obtain rest where "snd (for_folders m fs dir ?fl []) @ rest
        = concat (map (\<lambda>f. snd (visit m fs dir f)) ?fl)"
    using for_folders_events_prefix by blast
  then have sub: "set (snd (for_folders m fs dir ?fl []))
        \<subseteq> set (concat (map (\<lambda>f. snd (visit m fs dir f)) ?fl))"
    by (metis set_append Un_upper1)
  from assms have "ev = EvReaddir dir \<or> ev \<in> set (snd (for_folders m fs dir ?fl []))"
    by (simp add: getPosts_unfold)
  with sub have "ev = EvReaddir dir \<or> ev \<in> set (concat (map (\<lambda>f. snd (visit m fs dir f)) ?fl))"
    by blast
  then show ?thesis using visit_events_mem [of ev m fs dir ?fl] by auto
qed

lemma filter_is_write_scan:
  "filter is_write (snd (getPostsFromDir m fs dir)) = []"
proof -
  have "\<And>ev. ev \<in> set (snd (getPostsFromDir m fs dir)) \<Longrightarrow> \<not> is_write ev"
  proof -
    fix ev assume a: "ev \<in> set (snd (getPostsFromDir m fs dir))"
    show "\<not> is_write ev"
    proof (cases ev)
      case (EvWrite p t)
      with a getPosts_no_write [of p t m fs dir] show ?thesis by simp
    qed simp_all
  qed
  then show ?thesis by (simp add: filter_empty_conv)
qed

lemma serialize_defined:
  assumes "v \<noteq> JUndefined"
  shows "\<exists>s. serialize ind v = Some s"
  using assms by (cases v rule: truthy.cases) (simp_all add: Let_def)

lemma truthy_defined: "truthy v \<Longrightarrow> v \<noteq> JUndefined"
  by (cases v) simp_all

lemma serialize_post_object:
  assumes "serialize (ind @ ''  '') (title p) = Some t"
    and "serialize (ind @ ''  '') (summary p) = Some s"
  shows "serialize ind (post_object p) =
    Some (''{'' @ [CHR 0x0A] @ ind @ ''  '' @ quote ''title'' @ '': '' @ t
          @ '','' @ [CHR 0x0A] @ ind @ ''  '' @ quote ''summary'' @ '': '' @ s
          @ '','' @ [CHR 0x0A] @ ind @ ''  '' @ quote ''url'' @ '': '' @ quote (url p)
          @ [CHR 0x0A] @ ind @ ''}'')"
  using assms by (simp add: post_object_def Let_def)

lemma stringify_array:
  "JSON_stringify (JArr vs) =
     Some (if vs = [] then ''[]''
           else ''['' @ [CHR 0x0A] @ ''  ''
                @ join ('','' @ [CHR 0x0A] @ ''  '')
                    (map (\<lambda>v. case serialize ''  '' v of None \<Rightarrow> ''null'' | Some s \<Rightarrow> s) vs)
                @ [CHR 0x0A] @ '']'')"
  by (simp add: JSON_stringify_def Let_def)

lemma posts_truthy:
  assumes "fst (getPostsFromDir m fs dir) = Inr posts" and "p \<in> set posts"
  shows "truthy (title p) \<and> truthy (summary p)"
proof -
  from getPosts_readdir [OF assms(1)] obtain entries where rd: "readdirSync fs dir = Inr entries"
    by blast
  let ?g = "\<lambda>f. case fst (visit m fs dir f) of Inl e \<Rightarrow> [] | Inr ps \<Rightarrow> ps"
  from rd assms(1) have "posts = concat (map ?g (filter isDirectory entries))"
    using getPosts_Inr [of fs dir entries m posts] by auto
  with assms(2) obtain f where "p \<in> set (?g f)" by auto
  then obtain ps where ps: "fst (visit m fs dir f) = Inr ps" and pin: "p \<in> set ps"
    by (cases "fst (visit m fs dir f)") auto
  from visit_Inr_cases [OF ps] pin show ?thesis by (auto split: if_splits)
qed

lemma distinct_visit_events:
  assumes "distinct (map name fl)"
  shows "distinct (concat (map (\<lambda>f. snd (visit m fs dir f)) fl))"
  using assms
proof (induction fl)
  case Nil
  show ?case by simp
next
  case (Cons f fl)
  have own: "distinct (snd (visit m fs dir f))" by (simp add: visit_events)
  have others: "\<And>ev. ev \<in> set (concat (map (\<lambda>f. snd (visit m fs dir f)) fl)) \<Longrightarrow>
           ev \<notin> set (snd (visit m fs dir f))"
  proof -
    fix ev assume "ev \<in> set (concat (map (\<lambda>f. snd (visit m fs dir f)) fl))"
    then obtain g where g: "g \<in> set fl"
        "ev = EvExists (dir @ [name g, ''index.md'']) \<or> ev = EvRead (dir @ [name g, ''index.md''])"
      using visit_events_mem by blast
    then have "name g \<noteq> name f" using Cons.prems by (auto simp: image_iff)
    with g(2) show "ev \<notin> set (snd (visit m fs dir f))"
      by (auto simp: visit_events split: if_splits)
  qed
  from Cons.IH Cons.prems have "distinct (concat (map (\<lambda>f. snd (visit m fs dir f)) fl))" by simp
  with own others show ?case by auto
qed

lemma distinct_urls:
  assumes "distinct (map name fl)"
    and "\<And>f. f \<in> set fl \<Longrightarrow> g f = [] \<or> (\<exists>p. g f = [p] \<and> url p = ''/blog/'' @ name f)"
  shows "distinct (map url (concat (map g fl)))
         \<and> set (map url (concat (map g fl))) \<subseteq> (\<lambda>f. ''/blog/'' @ name f) ` set fl"
  using assms
proof (induction fl)
  case Nil
  show ?case by simp
next
  case (Cons f fl)
  from Cons.IH Cons.prems
  have ih: "distinct (map url (concat (map g fl)))"
    and sub: "set (map url (concat (map g fl))) \<subseteq> (\<lambda>f. ''/blog/'' @ name f) ` set fl"
    by auto
  have fresh: "''/blog/'' @ name f \<notin> (\<lambda>f. ''/blog/'' @ name f) ` set fl"
    using Cons.prems(1) by (auto simp: image_iff)
  from Cons.prems(2) [of f] consider "g f = []" | p where "g f = [p]" "url p = ''/blog/'' @ name f"
    by auto
  then show ?case
  proof cases
    case 1
    with ih sub show ?thesis by auto
  next
    case 2
    with ih sub fresh show ?thesis by auto
  qed
qed

lemma distinct_filter_le_one:
  assumes "distinct (map k xs)"
  shows "length (filter (\<lambda>x. k x = u) xs) \<le> 1"
  using assms by (induction xs) (auto simp: filter_empty_conv image_iff)

text \<open>
  QuoteJSONString is a prefix code: the text written for a string determines the string.
\<close>

lemma hex_digit_inj:
  assumes "m < 16" and "n < 16" and "hex_digit m = hex_digit n"
  shows "m = n"
proof -
  have d: "distinct ''0123456789abcdef''" by simp
  have "length ''0123456789abcdef'' = 16" by simp
  with assms d show ?thesis
    by (simp add: hex_digit_def nth_eq_iff_index_eq)
qed

lemma quote_char_shape:
  "(quote_char c = [c] \<and> c \<noteq> CHR 0x5C \<and> c \<noteq> CHR 0x22 \<and> 32 \<le> (of_char c :: nat))
   \<or> (\<exists>x. quote_char c = [CHR 0x5C, x] \<and> x \<noteq> CHR ''u'')
   \<or> (quote_char c = [CHR 0x5C, CHR ''u'', CHR ''0'', CHR ''0'',
                        hex_digit (of_char c div 16), hex_digit (of_char c)]
       \<and> (of_char c :: nat) < 32)"
  by (auto simp: quote_char_def)

lemma hex_pair_inj:
  assumes "(of_char c :: nat) < 32" and "(of_char d :: nat) < 32"
    and "hex_digit (of_char c div 16) = hex_digit (of_char d div 16)"
    and "hex_digit (of_char c) = hex_digit (of_char d)"
  shows "c = d"
proof -
  let ?m = "of_char c :: nat" and ?n = "of_char d :: nat"
  have "?m div 16 < 16" "?n div 16 < 16" using assms(1,2) by simp_all
  with assms(3) have hi: "?m div 16 = ?n div 16" using hex_digit_inj by blast
  have "hex_digit (?m mod 16) = hex_digit (?n mod 16)"
    using assms(4) by (simp add: hex_digit_def)
  moreover have "?m mod 16 < 16" "?n mod 16 < 16" by simp_all
  ultimately have lo: "?m mod 16 = ?n mod 16" using hex_digit_inj by blast
  have "?m = 16 * (?m div 16) + ?m mod 16" "?n = 16 * (?n div 16) + ?n mod 16" by simp_all
  with hi lo have "?m = ?n" by presburger
  then show ?thesis by simp
qed

lemma quote_char_prefix_code:
  assumes "quote_char c @ r = quote_char d @ r'"
  shows "c = d \<and> r = r'"
proof -
  consider (pc) "quote_char c = [c]" "c \<noteq> CHR 0x5C"
    | (sc) x where "quote_char c = [CHR 0x5C, x]" "x \<noteq> CHR ''u''"
    | (uc) "quote_char c = [CHR 0x5C, CHR ''u'', CHR ''0'', CHR ''0'',
                        hex_digit (of_char c div 16), hex_digit (of_char c)]"
           "(of_char c :: nat) < 32"
    using quote_char_shape [of c] by blast
  then show ?thesis
  proof cases
    case pc
    with assms show ?thesis
      by (auto simp: quote_char_def split: if_splits)
  next
    case sc
    with assms show ?thesis
      by (auto simp: quote_char_def split: if_splits)
  next
    case uc
    consider (pd) "quote_char d = [d]" "d \<noteq> CHR 0x5C"
      | (sd) y where "quote_char d = [CHR 0x5C, y]" "y \<noteq> CHR ''u''"
      | (ud) "quote_char d = [CHR 0x5C, CHR ''u'', CHR ''0'', CHR ''0'',
                        hex_digit (of_char d div 16), hex_digit (of_char d)]"
           "(of_char d :: nat) < 32"
      using quote_char_shape [of d] by blast
    then show ?thesis
    proof cases
      case pd
      with uc assms show ?thesis by simp
    next
      case sd
      with uc assms show ?thesis by simp
    next
      case ud
      with uc assms have "hex_digit (of_char c div 16) = hex_digit (of_char d div 16)"
        "hex_digit (of_char c) = hex_digit (of_char d)" "r = r'" by simp_all
      with hex_pair_inj [OF uc(2) ud(2)] show ?thesis by simp
    qed
  qed
qed

lemma quote_char_nonempty: "quote_char c \<noteq> []"
  using quote_char_shape [of c] by auto

lemma quote_chars_inj:
  "concat (map quote_char s) = concat (map quote_char s') \<Longrightarrow> s = s'"
proof (induction s arbitrary: s')
  case Nil
  then show ?case by (cases s') (simp_all add: quote_char_nonempty)
next
  case (Cons c cs)
  show ?case
  proof (cases s')
    case Nil
    with Cons.prems show ?thesis by (simp add: quote_char_nonempty)
  next
    case (Cons d ds)
    with Cons.prems have "quote_char c @ concat (map quote_char cs)
        = quote_char d @ concat (map quote_char ds)" by simp
    then have "c = d \<and> concat (map quote_char cs) = concat (map quote_char ds)"
      by (rule quote_char_prefix_code)
    with Cons.IH [of ds] Cons show ?thesis by simp
  qed
qed

lemma quote_inj: "quote s = quote s' \<Longrightarrow> s = s'"
  by (simp add: quote_def quote_chars_inj)


section \<open>The claims\<close>

text \<open>
  C1. In a run whose scan completes, over a root whose entries have pairwise distinct names,
  take any direct subdirectory and select the emitted records that carry its url. If its
  \<open>index.md\<close> is missing there is none. Otherwise the document was read and parsed, and
  there is exactly one record, holding exactly the \<open>title\<close> and \<open>summary\<close> of the front
  matter, when both values are truthy, and none when either is falsy. Truthiness is the
  only check: a non-empty string passes, an absent key and the empty string fail, but so do
  \<open>null\<close>, \<open>false\<close> and \<open>0\<close>, and a truthy value that is not a string passes unchanged.
\<close>

theorem C1_truthy_fields_decide_inclusion:
  assumes "readdirSync fs dir = Inr entries" and "distinct (map name entries)"
    and "fst (getPostsFromDir m fs dir) = Inr posts"
    and "f \<in> set entries" and "isDirectory f"
  shows "(\<not> existsSync fs (dir @ [name f, ''index.md'']) \<and>
            filter (\<lambda>p. url p = ''/blog/'' @ name f) posts = []) \<or>
         (existsSync fs (dir @ [name f, ''index.md'']) \<and>
          (\<exists>content data. readFileSync fs (dir @ [name f, ''index.md'']) = Inr content \<and>
             m content = Inr data \<and>
             filter (\<lambda>p. url p = ''/blog/'' @ name f) posts =
               (if truthy (get_prop data ''title'') \<and> truthy (get_prop data ''summary'')
                then [\<lparr>title = get_prop data ''title'', summary = get_prop data ''summary'',
                       url = ''/blog/'' @ name f\<rparr>]
                else [])))"
proof -
  let ?g = "\<lambda>f. case fst (visit m fs dir f) of Inl e \<Rightarrow> [] | Inr ps \<Rightarrow> ps"
  let ?fl = "filter isDirectory entries"
  from assms(1,3)
  have ok: "\<forall>f\<in>set entries. isDirectory f \<longrightarrow> (\<exists>ps. fst (visit m fs dir f) = Inr ps)"
    and posts: "posts = concat (map ?g ?fl)"
    using getPosts_Inr [of fs dir entries m posts] by auto
  have d: "distinct (map name ?fl)" using assms(2) by (simp add: distinct_map_filter)
  have fin: "f \<in> set ?fl" using assms(4,5) by simp
  have tags: "\<And>y p. y \<in> set ?fl \<Longrightarrow> p \<in> set (?g y) \<Longrightarrow> url p = ''/blog/'' @ name y"
  proof -
    fix y p assume y: "y \<in> set ?fl" and p: "p \<in> set (?g y)"
    from y ok obtain ps where ps: "fst (visit m fs dir y) = Inr ps" by auto
    with p visit_posts [OF ps] show "url p = ''/blog/'' @ name y" by auto
  qed
  have sel: "filter (\<lambda>p. url p = ''/blog/'' @ name f) posts = ?g f"
    unfolding posts
    using filter_concat_one [of name ?fl f ?g url "''/blog/''", OF d fin tags] by simp
  from ok assms(4,5) obtain ps where ps: "fst (visit m fs dir f) = Inr ps" by auto
  then have "?g f = ps" by simp
  with sel visit_Inr_cases [OF ps] show ?thesis by auto
qed

theorem C1_truthy_fields_decide_inclusion_witness:
  "readdirSync fs_two postsDir
     = Inr [\<lparr>name = ''01-post'', isDirectory = True\<rparr>, \<lparr>name = ''02-draft'', isDirectory = True\<rparr>]
   \<and> fst (getPostsFromDir sample_matter fs_two postsDir)
     = Inr [\<lparr>title = JStr ''A'', summary = JStr ''B'', url = ''/blog/01-post''\<rparr>]
   \<and> sample_matter doc_post = Inr [(''title'', JStr ''A''), (''summary'', JStr ''B'')]
   \<and> sample_matter doc_draft = Inr [(''title'', JStr ''C'')]
   \<and> filter (\<lambda>p. url p = ''/blog/01-post'')
        [\<lparr>title = JStr ''A'', summary = JStr ''B'', url = ''/blog/01-post''\<rparr>]
       = [\<lparr>title = JStr ''A'', summary = JStr ''B'', url = ''/blog/01-post''\<rparr>]
   \<and> filter (\<lambda>p. url p = ''/blog/02-draft'')
        [\<lparr>title = JStr ''A'', summary = JStr ''B'', url = ''/blog/01-post''\<rparr>] = []"
proof -
  let ?e1 = "\<lparr>name = ''01-post'', isDirectory = True\<rparr>"
  let ?e2 = "\<lparr>name = ''02-draft'', isDirectory = True\<rparr>"
  let ?posts = "[\<lparr>title = JStr ''A'', summary = JStr ''B'', url = ''/blog/01-post''\<rparr>]"
  have h1: "readdirSync fs_two postsDir = Inr [?e1, ?e2]" by code_simp
  have h2: "distinct (map name [?e1, ?e2])" by simp
  have h3: "fst (getPostsFromDir sample_matter fs_two postsDir) = Inr ?posts" by code_simp
  have r1: "readFileSync fs_two (postsDir @ [name ?e1, ''index.md'']) = Inr doc_post" by code_simp
  have r2: "readFileSync fs_two (postsDir @ [name ?e2, ''index.md'']) = Inr doc_draft" by code_simp
  have x1: "existsSync fs_two (postsDir @ [name ?e1, ''index.md''])" by code_simp
  have x2: "existsSync fs_two (postsDir @ [name ?e2, ''index.md''])" by code_simp
  have d1: "sample_matter doc_post = Inr [(''title'', JStr ''A''), (''summary'', JStr ''B'')]"
    by code_simp
  have d2: "sample_matter doc_draft = Inr [(''title'', JStr ''C'')]" by code_simp
  have a: "filter (\<lambda>p. url p = ''/blog/'' @ name ?e1) ?posts = ?posts"
    using C1_truthy_fields_decide_inclusion [OF h1 h2 h3, of ?e1] x1 r1 d1
    by (auto simp: get_prop_def)
  have b: "filter (\<lambda>p. url p = ''/blog/'' @ name ?e2) ?posts = []"
    using C1_truthy_fields_decide_inclusion [OF h1 h2 h3, of ?e2] x2 r2 d2
    by (auto simp: get_prop_def)
  from h1 h3 d1 d2 a b show ?thesis by simp
qed

text \<open>
  The claim as first stated, that presence and non-emptiness are the only checks, fails on
  a document whose \<open>title\<close> is the boolean \<open>false\<close>: both keys are present, neither value
  is the empty string, and the run writes an empty array.
\<close>

theorem C1_present_nonempty_counterexample:
  "readdirSync fs_flag postsDir = Inr [\<lparr>name = ''05-flag'', isDirectory = True\<rparr>]
   \<and> readFileSync fs_flag (postsDir @ [''05-flag'', ''index.md'']) = Inr doc_flag
   \<and> sample_matter doc_flag = Inr [(''title'', JBool False), (''summary'', JStr ''S'')]
   \<and> map_of [(''title'', JBool False), (''summary'', JStr ''S'')] ''title'' = Some (JBool False)
   \<and> map_of [(''title'', JBool False), (''summary'', JStr ''S'')] ''summary'' = Some (JStr ''S'')
   \<and> JBool False \<noteq> JStr [] \<and> JStr ''S'' \<noteq> JStr []
   \<and> fst (getPostsFromDir sample_matter fs_flag postsDir) = Inr []
   \<and> status (main sample_matter fs_flag) = 0
   \<and> bytes_at (files (main sample_matter fs_flag)) outputFile = Some ''[]''"
  by code_simp

text \<open>
  C2. A unit whose document is read and whose parsed front matter is empty is dropped at
  validation: the loop goes on to the remaining folders with the collected records
  unchanged. A unit whose \<open>index.md\<close> exists but cannot be read, or on which the parser
  raises, is not treated as empty front matter: nothing catches the exception, the run ends
  with status 1, the file system is unchanged and \<open>writeFileSync\<close> is never called, so
  the records of the other units are not emitted either.
\<close>

theorem C2_unreadable_or_unparseable_aborts:
  assumes "readdirSync fs postsDir = Inr entries"
    and "f \<in> set entries" and "isDirectory f"
  shows "(readFileSync fs (postsDir @ [name f, ''index.md'']) = Inr c \<and> m c = Inr [] \<longrightarrow>
            (\<forall>rest posts. for_folders m fs postsDir (f # rest) posts =
               (fst (for_folders m fs postsDir rest posts),
                [EvExists (postsDir @ [name f, ''index.md'']),
                 EvRead (postsDir @ [name f, ''index.md''])]
                @ snd (for_folders m fs postsDir rest posts))))
       \<and> (existsSync fs (postsDir @ [name f, ''index.md'']) \<and>
          (readFileSync fs (postsDir @ [name f, ''index.md'']) = Inl e
           \<or> (readFileSync fs (postsDir @ [name f, ''index.md'']) = Inr c \<and> m c = Inl e)) \<longrightarrow>
            status (main m fs) = 1 \<and> files (main m fs) = fs
            \<and> (\<forall>p t. EvWrite p t \<notin> set (events (main m fs))))"
proof -
  let ?pf = "postsDir @ [name f, ''index.md'']"
  have dropped: "\<forall>rest posts. for_folders m fs postsDir (f # rest) posts =
               (fst (for_folders m fs postsDir rest posts),
                [EvExists ?pf, EvRead ?pf] @ snd (for_folders m fs postsDir rest posts))"
    if a: "readFileSync fs ?pf = Inr c \<and> m c = Inr []"
    using visit_empty_data [of fs postsDir f c m] a by (simp split: prod.splits)
  have aborted: "status (main m fs) = 1 \<and> files (main m fs) = fs
            \<and> (\<forall>p t. EvWrite p t \<notin> set (events (main m fs)))"
    if a: "existsSync fs ?pf \<and>
          (readFileSync fs ?pf = Inl e \<or> (readFileSync fs ?pf = Inr c \<and> m c = Inl e))"
  proof -
    from a have "fst (visit m fs postsDir f) = Inl e" using visit_raises by blast
    with assms(2,3)
    have "\<exists>f\<in>set (filter isDirectory entries). \<exists>e. fst (visit m fs postsDir f) = Inl e"
      by auto
    then obtain e' where
      "fst (for_folders m fs postsDir (filter isDirectory entries) []) = Inl e'"
      using for_folders_Inl by blast
    then have "fst (getPostsFromDir m fs postsDir) = Inl e'"
      using assms(1) by (simp add: getPosts_unfold)
    from main_abort [OF this] getPosts_no_write [of _ _ m fs postsDir]
    show ?thesis by simp
  qed
  from dropped aborted show ?thesis by blast
qed

theorem C2_unreadable_or_unparseable_aborts_witness:
  "status (main sample_matter fs_locked) = 1 \<and> files (main sample_matter fs_locked) = fs_locked
   \<and> (\<forall>p t. EvWrite p t \<notin> set (events (main sample_matter fs_locked)))
   \<and> status (main sample_matter fs_broken) = 1 \<and> files (main sample_matter fs_broken) = fs_broken
   \<and> for_folders sample_matter fs_plain postsDir
        [\<lparr>name = ''01-plain'', isDirectory = True\<rparr>, \<lparr>name = ''02-post'', isDirectory = True\<rparr>] []
      = (Inr [\<lparr>title = JStr ''A'', summary = JStr ''B'', url = ''/blog/02-post''\<rparr>],
         [EvExists (postsDir @ [''01-plain'', ''index.md'']),
          EvRead (postsDir @ [''01-plain'', ''index.md'']),
          EvExists (postsDir @ [''02-post'', ''index.md'']),
          EvRead (postsDir @ [''02-post'', ''index.md''])])"
proof -
  let ?l = "\<lparr>name = ''01-locked'', isDirectory = True\<rparr>"
  let ?b = "\<lparr>name = ''01-broken'', isDirectory = True\<rparr>"
  let ?p = "\<lparr>name = ''01-plain'', isDirectory = True\<rparr>"
  let ?q = "\<lparr>name = ''02-post'', isDirectory = True\<rparr>"
  have l1: "readdirSync fs_locked postsDir = Inr [?l, ?q]" by code_simp
  have l2: "existsSync fs_locked (postsDir @ [name ?l, ''index.md''])" by code_simp
  have l3: "readFileSync fs_locked (postsDir @ [name ?l, ''index.md'']) = Inl EACCES" by code_simp
  have b1: "readdirSync fs_broken postsDir = Inr [?b, ?q]" by code_simp
  have b2: "existsSync fs_broken (postsDir @ [name ?b, ''index.md''])" by code_simp
  have b3: "readFileSync fs_broken (postsDir @ [name ?b, ''index.md'']) = Inr doc_broken"
    by code_simp
  have b4: "sample_matter doc_broken = Inl YAMLException" by code_simp
  have p1: "readdirSync fs_plain postsDir = Inr [?p, ?q]" by code_simp
  have p3: "readFileSync fs_plain (postsDir @ [name ?p, ''index.md'']) = Inr doc_plain"
    by code_simp
  have p4: "sample_matter doc_plain = Inr []" by code_simp
  have p5: "for_folders sample_matter fs_plain postsDir [?q] []
      = (Inr [\<lparr>title = JStr ''A'', summary = JStr ''B'', url = ''/blog/02-post''\<rparr>],
         [EvExists (postsDir @ [''02-post'', ''index.md'']),
          EvRead (postsDir @ [''02-post'', ''index.md''])])" by code_simp
  have A: "status (main sample_matter fs_locked) = 1 \<and> files (main sample_matter fs_locked) = fs_locked
   \<and> (\<forall>p t. EvWrite p t \<notin> set (events (main sample_matter fs_locked)))"
    using C2_unreadable_or_unparseable_aborts
      [OF l1, of ?l doc_post sample_matter EACCES] l2 l3 by simp
  have B: "status (main sample_matter fs_broken) = 1 \<and> files (main sample_matter fs_broken) = fs_broken"
    using C2_unreadable_or_unparseable_aborts
      [OF b1, of ?b doc_broken sample_matter YAMLException] b2 b3 b4 by simp
  have C: "for_folders sample_matter fs_plain postsDir [?p, ?q] [] =
        (fst (for_folders sample_matter fs_plain postsDir [?q] []),
         [EvExists (postsDir @ [name ?p, ''index.md'']), EvRead (postsDir @ [name ?p, ''index.md''])]
         @ snd (for_folders sample_matter fs_plain postsDir [?q] []))"
    using C2_unreadable_or_unparseable_aborts
      [OF p1, of ?p doc_plain sample_matter EACCES] p3 p4 by simp
  from A B C p5 show ?thesis by simp
qed

text \<open>
  The claim as first stated, that a run is never aborted by one unreadable document, fails
  on a root with an unreadable document beside a valid one: the run ends with status 1
  after the failed read and the earlier output file is left as it was.
\<close>

theorem C2_never_aborted_counterexample:
  "existsSync fs_locked (postsDir @ [''01-locked'', ''index.md''])
   \<and> readFileSync fs_locked (postsDir @ [''01-locked'', ''index.md'']) = Inl EACCES
   \<and> readFileSync fs_locked (postsDir @ [''02-post'', ''index.md'']) = Inr doc_post
   \<and> sample_matter doc_post = Inr [(''title'', JStr ''A''), (''summary'', JStr ''B'')]
   \<and> status (main sample_matter fs_locked) = 1
   \<and> files (main sample_matter fs_locked) = fs_locked
   \<and> bytes_at (files (main sample_matter fs_locked)) outputFile = Some ''old''
   \<and> events (main sample_matter fs_locked)
       = [EvReaddir postsDir, EvExists (postsDir @ [''01-locked'', ''index.md'']),
          EvRead (postsDir @ [''01-locked'', ''index.md''])]"
  by code_simp

text \<open>
  C3. Every emitted record comes from one directory entry of the root whose document was read
  and parsed; its \<open>title\<close> and \<open>summary\<close> are the values of the front matter, and its
  \<open>url\<close> is \<open>/blog/\<close> followed by the name of that directory, whatever the front matter
  holds, a \<open>url\<close> field included. For any folder and any parser result, a record pushed by
  the loop body carries \<open>/blog/\<close> followed by the folder's name.
\<close>

theorem C3_url_from_folder_name:
  assumes "fst (getPostsFromDir m fs dir) = Inr posts" and "p \<in> set posts"
  shows "(\<exists>entries f content data.
           readdirSync fs dir = Inr entries \<and> f \<in> set entries \<and> isDirectory f \<and>
           readFileSync fs (dir @ [name f, ''index.md'']) = Inr content \<and>
           m content = Inr data \<and>
           title p = get_prop data ''title'' \<and> summary p = get_prop data ''summary'' \<and>
           url p = ''/blog/'' @ name f)
       \<and> (\<forall>g ps. fst (visit m fs dir g) = Inr ps \<longrightarrow>
             (\<forall>q\<in>set ps. url q = ''/blog/'' @ name g))"
    (is "?origin \<and> ?every_folder")
proof -
  from getPosts_readdir [OF assms(1)] obtain entries where rd: "readdirSync fs dir = Inr entries"
    by blast
  let ?g = "\<lambda>f. case fst (visit m fs dir f) of Inl e \<Rightarrow> [] | Inr ps \<Rightarrow> ps"
  from rd assms(1) have posts: "posts = concat (map ?g (filter isDirectory entries))"
    using getPosts_Inr [of fs dir entries m posts] by auto
  with assms(2) obtain f where f: "f \<in> set entries" "isDirectory f" and pf: "p \<in> set (?g f)"
    by auto
  then obtain ps where ps: "fst (visit m fs dir f) = Inr ps" and pin: "p \<in> set ps"
    by (cases "fst (visit m fs dir f)") auto
  from visit_Inr_cases [OF ps] pin obtain content data where
    "readFileSync fs (dir @ [name f, ''index.md'']) = Inr content" "m content = Inr data"
    "p = \<lparr>title = get_prop data ''title'', summary = get_prop data ''summary'',
          url = ''/blog/'' @ name f\<rparr>"
    by (auto split: if_splits)
  with rd f have origin: ?origin by auto
  have every_folder: ?every_folder
  proof (intro allI impI ballI)
    fix g ps q assume "fst (visit m fs dir g) = Inr ps" and "q \<in> set ps"
    with visit_posts [of m fs dir g ps] show "url q = ''/blog/'' @ name g" by auto
  qed
  from origin every_folder show ?thesis by (rule conjI)
qed

theorem C3_url_from_folder_name_witness:
  "fst (getPostsFromDir sample_matter fs_custom postsDir)
     = Inr [\<lparr>title = JStr ''T'', summary = JStr ''<b>S</b>'', url = ''/blog/04-custom''\<rparr>]
   \<and> sample_matter doc_custom
     = Inr [(''title'', JStr ''T''), (''summary'', JStr ''<b>S</b>''), (''url'', JStr ''/custom'')]
   \<and> (\<exists>entries f content data.
           readdirSync fs_custom postsDir = Inr entries \<and> f \<in> set entries \<and> isDirectory f \<and>
           readFileSync fs_custom (postsDir @ [name f, ''index.md'']) = Inr content \<and>
           sample_matter content = Inr data \<and>
           JStr ''T'' = get_prop data ''title'' \<and> JStr ''<b>S</b>'' = get_prop data ''summary'' \<and>
           ''/blog/04-custom'' = ''/blog/'' @ name f)"
proof -
  let ?p = "\<lparr>title = JStr ''T'', summary = JStr ''<b>S</b>'', url = ''/blog/04-custom''\<rparr>"
  have h1: "fst (getPostsFromDir sample_matter fs_custom postsDir) = Inr [?p]" by code_simp
  have h2: "?p \<in> set [?p]" by simp
  have d: "sample_matter doc_custom
     = Inr [(''title'', JStr ''T''), (''summary'', JStr ''<b>S</b>''), (''url'', JStr ''/custom'')]"
    by code_simp
  from C3_url_from_folder_name [OF h1 h2, THEN conjunct1] h1 d show ?thesis by simp
qed

text \<open>
  C4. If the content root directory does not exist, the run ends with a non-zero status and
  the file system is left exactly as it was: the output file is neither created nor
  changed, and \<open>writeFileSync\<close> is never called (the only call made is the failed
  \<open>readdirSync\<close>).
\<close>

theorem C4_missing_root_is_fatal:
  assumes "\<not> existsSync fs postsDir"
  shows "status (main m fs) \<noteq> 0 \<and> files (main m fs) = fs
         \<and> events (main m fs) = [EvReaddir postsDir]"
  using assms by (simp add: main_def getPostsFromDir_def readdirSync_def existsSync_def)

theorem C4_missing_root_is_fatal_witness:
  "\<not> existsSync fs_no_root postsDir
   \<and> status (main sample_matter fs_no_root) \<noteq> 0
   \<and> files (main sample_matter fs_no_root) = fs_no_root
   \<and> bytes_at (files (main sample_matter fs_no_root)) outputFile = Some ''old''
   \<and> events (main sample_matter fs_no_root) = [EvReaddir postsDir]"
proof -
  have h: "\<not> existsSync fs_no_root postsDir"
    by (simp add: existsSync_def fs_no_root_def postsDir_def)
  have b: "bytes_at fs_no_root outputFile = Some ''old''"
    by (simp add: bytes_at_def fs_no_root_def outputFile_def)
  show ?thesis
    using h b C4_missing_root_is_fatal [OF h, of sample_matter] by simp
qed

text \<open>
  C5. If the content root exists, every direct subdirectory either lacks \<open>index.md\<close> or has
  a readable one whose parsed front matter fails validation (an empty root included), and
  \<open>writeFileSync\<close> of \<open>[]\<close> to the output path succeeds, then the run ends with status 0
  and the output file holds exactly \<open>[]\<close>.
\<close>

theorem C5_no_record_writes_empty_array:
  assumes "readdirSync fs postsDir = Inr entries"
    and "\<forall>f\<in>set entries. isDirectory f \<longrightarrow>
           \<not> existsSync fs (postsDir @ [name f, ''index.md'']) \<or>
           (\<exists>c d. readFileSync fs (postsDir @ [name f, ''index.md'']) = Inr c \<and> m c = Inr d \<and>
                  \<not> (truthy (get_prop d ''title'') \<and> truthy (get_prop d ''summary'')))"
    and "writeFileSync fs outputFile ''[]'' = Inr fs'"
  shows "status (main m fs) = 0 \<and> files (main m fs) = fs'
         \<and> bytes_at (files (main m fs)) outputFile = Some ''[]''"
proof -
  have v: "\<forall>f\<in>set entries. isDirectory f \<longrightarrow> fst (visit m fs postsDir f) = Inr []"
  proof (intro ballI impI)
    fix f assume "f \<in> set entries" "isDirectory f"
    with assms(2) show "fst (visit m fs postsDir f) = Inr []"
      by (auto simp: visit_def Let_def)
  qed
  then have "fst (getPostsFromDir m fs postsDir) = Inr []"
    using getPosts_Inr [OF assms(1), of m "[]"] by auto
  then obtain evs where "getPostsFromDir m fs postsDir = (Inr [], evs)"
    by (cases "getPostsFromDir m fs postsDir") auto
  then have "status (main m fs) = 0 \<and> files (main m fs) = fs'"
    using assms(3) by (simp add: main_def stringify_empty)
  with write_bytes [OF assms(3)] show ?thesis by simp
qed

theorem C5_no_record_writes_empty_array_witness:
  "readdirSync fs_empty postsDir = Inr []
   \<and> status (main sample_matter fs_empty) = 0
   \<and> bytes_at (files (main sample_matter fs_empty)) outputFile = Some ''[]''
   \<and> readdirSync fs_drafts postsDir
       = Inr [\<lparr>name = ''02-draft'', isDirectory = True\<rparr>, \<lparr>name = ''03-empty'', isDirectory = True\<rparr>]
   \<and> status (main sample_matter fs_drafts) = 0
   \<and> bytes_at (files (main sample_matter fs_drafts)) outputFile = Some ''[]''"
proof -
  let ?d = "\<lparr>name = ''02-draft'', isDirectory = True\<rparr>"
  let ?e = "\<lparr>name = ''03-empty'', isDirectory = True\<rparr>"
  have e1: "readdirSync fs_empty postsDir = Inr []" by code_simp
  have e2: "\<forall>f\<in>set []. isDirectory f \<longrightarrow>
           \<not> existsSync fs_empty (postsDir @ [name f, ''index.md'']) \<or>
           (\<exists>c d. readFileSync fs_empty (postsDir @ [name f, ''index.md'']) = Inr c \<and>
                  sample_matter c = Inr d \<and>
                  \<not> (truthy (get_prop d ''title'') \<and> truthy (get_prop d ''summary'')))"
    by simp
  have e3: "writeFileSync fs_empty outputFile ''[]'' =
      Inr (Dir True [(''public'', Dir True [(''posts.json'', File True True ''[]'')]),
                (''src'', Dir True [(''content'', Dir True [(''blog'', Dir True [])])])])" by code_simp
  have d1: "readdirSync fs_drafts postsDir = Inr [?d, ?e]" by code_simp
  have dr: "readFileSync fs_drafts (postsDir @ [name ?d, ''index.md'']) = Inr doc_draft
      \<and> sample_matter doc_draft = Inr [(''title'', JStr ''C'')]
      \<and> \<not> (truthy (get_prop [(''title'', JStr ''C'')] ''title'')
           \<and> truthy (get_prop [(''title'', JStr ''C'')] ''summary''))" by code_simp
  have de: "\<not> existsSync fs_drafts (postsDir @ [name ?e, ''index.md''])" by code_simp
  have d2: "\<forall>f\<in>set [?d, ?e]. isDirectory f \<longrightarrow>
           \<not> existsSync fs_drafts (postsDir @ [name f, ''index.md'']) \<or>
           (\<exists>c d. readFileSync fs_drafts (postsDir @ [name f, ''index.md'']) = Inr c \<and>
                  sample_matter c = Inr d \<and>
                  \<not> (truthy (get_prop d ''title'') \<and> truthy (get_prop d ''summary'')))"
    using dr de by auto
  have d3: "writeFileSync fs_drafts outputFile ''[]'' =
      Inr (Dir True [(''public'', Dir True [(''posts.json'', File True True ''[]'')]),
                (''src'', Dir True [(''content'', Dir True [(''blog'',
                   Dir True [(''02-draft'', Dir True [(''index.md'', File True True doc_draft)]),
                        (''03-empty'', Dir True [])])])])])" by code_simp
  from C5_no_record_writes_empty_array [OF e1 e2 e3]
       C5_no_record_writes_empty_array [OF d1 d2 d3] e1 d1
  show ?thesis by blast
qed

text \<open>
  The claim as first stated fails three times: a root whose only document is unreadable
  yields no record, yet the run ends with status 1 and the earlier output file stays; an
  empty root in a working directory without \<open>public\<close> ends with status 1 and no output
  file; and an empty root beside an output file the process may not write ends with
  status 1 and the earlier file stays.
\<close>

theorem C5_always_succeeds_counterexample:
  "readdirSync fs_only_locked postsDir = Inr [\<lparr>name = ''01-locked'', isDirectory = True\<rparr>]
   \<and> fst (getPostsFromDir sample_matter fs_only_locked postsDir) = Inl EACCES
   \<and> status (main sample_matter fs_only_locked) = 1
   \<and> bytes_at (files (main sample_matter fs_only_locked)) outputFile = Some ''old''
   \<and> readdirSync fs_no_public postsDir = Inr []
   \<and> status (main sample_matter fs_no_public) = 1
   \<and> bytes_at (files (main sample_matter fs_no_public)) outputFile = None
   \<and> readdirSync fs_readonly postsDir = Inr []
   \<and> writeFileSync fs_readonly outputFile ''[]'' = Inl EACCES
   \<and> status (main sample_matter fs_readonly) = 1
   \<and> bytes_at (files (main sample_matter fs_readonly)) outputFile = Some ''old''"
  by code_simp

text \<open>
  C6. The scan looks only at the direct subdirectories of the root. Two file systems whose
  roots list the same subdirectories in the same order, and that agree on the \<open>index.md\<close>
  directly inside each of them, give the same records, the same exception and the same
  calls, whatever plain files lie under the root and whatever is nested deeper. Every call
  of the scan is the listing of the root, or \<open>existsSync\<close> or \<open>readFileSync\<close> on the
  \<open>index.md\<close> of a directory entry. A subdirectory is read exactly when its \<open>index.md\<close>
  exists; when it does not, the only call is the \<open>existsSync\<close> and nothing is pushed or
  raised.
\<close>

theorem C6_only_direct_subdirectories:
  assumes "readdirSync fs dir = Inr entries" and "readdirSync fs' dir = Inr entries'"
    and "filter isDirectory entries = filter isDirectory entries'"
    and "\<forall>f\<in>set entries. isDirectory f \<longrightarrow>
           resolve fs (dir @ [name f, ''index.md'']) = resolve fs' (dir @ [name f, ''index.md''])"
  shows "getPostsFromDir m fs dir = getPostsFromDir m fs' dir
       \<and> (\<forall>ev\<in>set (snd (getPostsFromDir m fs dir)).
            ev = EvReaddir dir \<or>
            (\<exists>f\<in>set entries. isDirectory f \<and>
               (ev = EvExists (dir @ [name f, ''index.md''])
                \<or> ev = EvRead (dir @ [name f, ''index.md'']))))
       \<and> (\<forall>f\<in>set entries. isDirectory f \<longrightarrow>
            snd (visit m fs dir f) =
              (if existsSync fs (dir @ [name f, ''index.md''])
               then [EvExists (dir @ [name f, ''index.md'']), EvRead (dir @ [name f, ''index.md''])]
               else [EvExists (dir @ [name f, ''index.md''])])
            \<and> (\<not> existsSync fs (dir @ [name f, ''index.md'']) \<longrightarrow>
                 fst (visit m fs dir f) = Inr []))"
proof (intro conjI)
  have "for_folders m fs dir (filter isDirectory entries) []
      = for_folders m fs' dir (filter isDirectory entries) []"
    using assms(4) by (intro for_folders_cong) simp
  then show "getPostsFromDir m fs dir = getPostsFromDir m fs' dir"
    using assms(3) by (simp add: getPosts_unfold [OF assms(1)] getPosts_unfold [OF assms(2)])
next
  show "\<forall>ev\<in>set (snd (getPostsFromDir m fs dir)).
            ev = EvReaddir dir \<or>
            (\<exists>f\<in>set entries. isDirectory f \<and>
               (ev = EvExists (dir @ [name f, ''index.md''])
                \<or> ev = EvRead (dir @ [name f, ''index.md''])))"
    using getPosts_events_mem [OF assms(1)] by blast
next
  show "\<forall>f\<in>set entries. isDirectory f \<longrightarrow>
            snd (visit m fs dir f) =
              (if existsSync fs (dir @ [name f, ''index.md''])
               then [EvExists (dir @ [name f, ''index.md'']), EvRead (dir @ [name f, ''index.md''])]
               else [EvExists (dir @ [name f, ''index.md''])])
            \<and> (\<not> existsSync fs (dir @ [name f, ''index.md'']) \<longrightarrow>
                 fst (visit m fs dir f) = Inr [])"
    by (simp add: visit_events) (simp add: visit_def)
qed

theorem C6_only_direct_subdirectories_witness:
  "readdirSync fs_three postsDir
     = Inr [\<lparr>name = ''01-post'', isDirectory = True\<rparr>, \<lparr>name = ''02-draft'', isDirectory = True\<rparr>,
            \<lparr>name = ''03-assets'', isDirectory = True\<rparr>]
   \<and> readdirSync fs_extra postsDir
     = Inr [\<lparr>name = ''index.md'', isDirectory = False\<rparr>, \<lparr>name = ''01-post'', isDirectory = True\<rparr>,
            \<lparr>name = ''notes.txt'', isDirectory = False\<rparr>, \<lparr>name = ''02-draft'', isDirectory = True\<rparr>,
            \<lparr>name = ''03-assets'', isDirectory = True\<rparr>]
   \<and> getPostsFromDir sample_matter fs_three postsDir = getPostsFromDir sample_matter fs_extra postsDir
   \<and> getPostsFromDir sample_matter fs_extra postsDir
     = (Inr [\<lparr>title = JStr ''A'', summary = JStr ''B'', url = ''/blog/01-post''\<rparr>],
        [EvReaddir postsDir,
         EvExists (postsDir @ [''01-post'', ''index.md'']), EvRead (postsDir @ [''01-post'', ''index.md'']),
         EvExists (postsDir @ [''02-draft'', ''index.md'']), EvRead (postsDir @ [''02-draft'', ''index.md'']),
         EvExists (postsDir @ [''03-assets'', ''index.md''])])
   \<and> visit sample_matter fs_three postsDir \<lparr>name = ''03-assets'', isDirectory = True\<rparr>
     = (Inr [], [EvExists (postsDir @ [''03-assets'', ''index.md''])])"
proof -
  let ?a = "\<lparr>name = ''01-post'', isDirectory = True\<rparr>"
  let ?b = "\<lparr>name = ''02-draft'', isDirectory = True\<rparr>"
  let ?c = "\<lparr>name = ''03-assets'', isDirectory = True\<rparr>"
  let ?x = "\<lparr>name = ''index.md'', isDirectory = False\<rparr>"
  let ?y = "\<lparr>name = ''notes.txt'', isDirectory = False\<rparr>"
  have h1: "readdirSync fs_three postsDir = Inr [?a, ?b, ?c]" by code_simp
  have h2: "readdirSync fs_extra postsDir = Inr [?x, ?a, ?y, ?b, ?c]" by code_simp
  have h3: "filter isDirectory [?a, ?b, ?c] = filter isDirectory [?x, ?a, ?y, ?b, ?c]" by simp
  have h4: "\<forall>f\<in>set [?a, ?b, ?c]. isDirectory f \<longrightarrow>
       resolve fs_three (postsDir @ [name f, ''index.md''])
         = resolve fs_extra (postsDir @ [name f, ''index.md''])" by code_simp
  have v: "getPostsFromDir sample_matter fs_extra postsDir
     = (Inr [\<lparr>title = JStr ''A'', summary = JStr ''B'', url = ''/blog/01-post''\<rparr>],
        [EvReaddir postsDir,
         EvExists (postsDir @ [''01-post'', ''index.md'']), EvRead (postsDir @ [''01-post'', ''index.md'']),
         EvExists (postsDir @ [''02-draft'', ''index.md'']), EvRead (postsDir @ [''02-draft'', ''index.md'']),
         EvExists (postsDir @ [''03-assets'', ''index.md''])])" by code_simp
  have e: "\<not> existsSync fs_three (postsDir @ [name ?c, ''index.md''])" by code_simp
  note inst = C6_only_direct_subdirectories [OF h1 h2 h3 h4, of sample_matter]
  from inst have eq: "getPostsFromDir sample_matter fs_three postsDir
      = getPostsFromDir sample_matter fs_extra postsDir" by (rule conjunct1)
  from inst have "\<forall>f\<in>set [?a, ?b, ?c]. isDirectory f \<longrightarrow>
            snd (visit sample_matter fs_three postsDir f) =
              (if existsSync fs_three (postsDir @ [name f, ''index.md''])
               then [EvExists (postsDir @ [name f, ''index.md'']),
                     EvRead (postsDir @ [name f, ''index.md''])]
               else [EvExists (postsDir @ [name f, ''index.md''])])
            \<and> (\<not> existsSync fs_three (postsDir @ [name f, ''index.md'']) \<longrightarrow>
                 fst (visit sample_matter fs_three postsDir f) = Inr [])"
    by (rule conjunct2 [THEN conjunct2])
  with e have "snd (visit sample_matter fs_three postsDir ?c)
                 = [EvExists (postsDir @ [name ?c, ''index.md''])]
       \<and> fst (visit sample_matter fs_three postsDir ?c) = Inr []" by simp
  then have vc: "visit sample_matter fs_three postsDir ?c
     = (Inr [], [EvExists (postsDir @ [''03-assets'', ''index.md''])])"
    by (cases "visit sample_matter fs_three postsDir ?c") simp
  from h1 h2 eq v vc show ?thesis by simp
qed

text \<open>
  C7. A second run on the file system the first run left behind gives the same status, the
  same files and the same calls. Two runs that succeed on file systems with the same
  content root write the same bytes, whatever else the file systems hold; the bytes are the
  serialisation of an array of objects whose keys are always in the order \<open>title\<close>,
  \<open>summary\<close>, \<open>url\<close>.
\<close>

theorem C7_runs_are_reproducible:
  "main m (files (main m fs)) = main m fs \<and>
   (resolve fs postsDir = resolve fs' postsDir \<and> status (main m fs) = 0 \<and> status (main m fs') = 0
      \<longrightarrow> (\<exists>posts :: post list. bytes_at (files (main m fs)) outputFile
                      = JSON_stringify (JArr (map (\<lambda>p. JObj [(''title'', title p),
                            (''summary'', summary p), (''url'', JStr (url p))]) posts)) \<and>
                    bytes_at (files (main m fs')) outputFile = bytes_at (files (main m fs)) outputFile \<and>
                    bytes_at (files (main m fs)) outputFile \<noteq> None))"
proof -
  have two: "\<exists>posts :: post list. bytes_at (files (main m fs)) outputFile
                      = JSON_stringify (JArr (map (\<lambda>p. JObj [(''title'', title p),
                            (''summary'', summary p), (''url'', JStr (url p))]) posts)) \<and>
                    bytes_at (files (main m fs')) outputFile = bytes_at (files (main m fs)) outputFile \<and>
                    bytes_at (files (main m fs)) outputFile \<noteq> None"
    if a: "resolve fs postsDir = resolve fs' postsDir \<and> status (main m fs) = 0
           \<and> status (main m fs') = 0"
  proof -
    from a have g: "getPostsFromDir m fs postsDir = getPostsFromDir m fs' postsDir"
      using getPosts_cong_root by blast
    from a obtain posts json fs1 where 1: "fst (getPostsFromDir m fs postsDir) = Inr posts"
      "JSON_stringify (JArr (map post_object posts)) = Some json"
      "writeFileSync fs outputFile json = Inr fs1" "files (main m fs) = fs1"
      by (cases rule: main_cases [of m fs]) auto
    from a obtain posts' json' fs2 where 2: "fst (getPostsFromDir m fs' postsDir) = Inr posts'"
      "JSON_stringify (JArr (map post_object posts')) = Some json'"
      "writeFileSync fs' outputFile json' = Inr fs2" "files (main m fs') = fs2"
      by (cases rule: main_cases [of m fs']) auto
    from g 1(1) 2(1) have "posts' = posts" by simp
    with 1(2) 2(2) have "json' = json" by simp
    have "map post_object posts = map (\<lambda>p. JObj [(''title'', title p),
                            (''summary'', summary p), (''url'', JStr (url p))]) posts"
      by (simp add: post_object_def)
    with 1(2) have J: "JSON_stringify (JArr (map (\<lambda>p. JObj [(''title'', title p),
                            (''summary'', summary p), (''url'', JStr (url p))]) posts)) = Some json"
      by simp
    have A: "bytes_at (files (main m fs)) outputFile = Some json"
      using write_bytes [OF 1(3)] 1(4) by simp
    have B: "bytes_at (files (main m fs')) outputFile = Some json"
      using write_bytes [OF 2(3)] 2(4) \<open>json' = json\<close> by simp
    show ?thesis
    proof (intro exI conjI)
      show "bytes_at (files (main m fs)) outputFile
              = JSON_stringify (JArr (map (\<lambda>p. JObj [(''title'', title p),
                            (''summary'', summary p), (''url'', JStr (url p))]) posts))"
        using A J by simp
      show "bytes_at (files (main m fs')) outputFile = bytes_at (files (main m fs)) outputFile"
        using A B by simp
      show "bytes_at (files (main m fs)) outputFile \<noteq> None" using A by simp
    qed
  qed
  show ?thesis
  proof (rule conjI)
    show "main m (files (main m fs)) = main m fs" by (rule main_idem)
  next
    show "resolve fs postsDir = resolve fs' postsDir \<and> status (main m fs) = 0
            \<and> status (main m fs') = 0
      \<longrightarrow> (\<exists>posts :: post list. bytes_at (files (main m fs)) outputFile
                      = JSON_stringify (JArr (map (\<lambda>p. JObj [(''title'', title p),
                            (''summary'', summary p), (''url'', JStr (url p))]) posts)) \<and>
                    bytes_at (files (main m fs')) outputFile = bytes_at (files (main m fs)) outputFile \<and>
                    bytes_at (files (main m fs)) outputFile \<noteq> None)"
      using two by (rule impI)
  qed
qed

theorem C7_runs_are_reproducible_witness:
  "resolve fs_two postsDir = resolve fs_two_fresh postsDir
   \<and> bytes_at fs_two outputFile = Some ''old'' \<and> bytes_at fs_two_fresh outputFile = None
   \<and> status (main sample_matter fs_two) = 0 \<and> status (main sample_matter fs_two_fresh) = 0
   \<and> main sample_matter (files (main sample_matter fs_two)) = main sample_matter fs_two
   \<and> bytes_at (files (main sample_matter fs_two_fresh)) outputFile
       = bytes_at (files (main sample_matter fs_two)) outputFile
   \<and> bytes_at (files (main sample_matter fs_two)) outputFile \<noteq> None"
proof -
  have h1: "resolve fs_two postsDir = resolve fs_two_fresh postsDir" by code_simp
  have h2: "status (main sample_matter fs_two) = 0" by code_simp
  have h3: "status (main sample_matter fs_two_fresh) = 0" by code_simp
  have b: "bytes_at fs_two outputFile = Some ''old'' \<and> bytes_at fs_two_fresh outputFile = None"
    by code_simp
  note inst = C7_runs_are_reproducible [of sample_matter fs_two fs_two_fresh]
  from inst have i: "main sample_matter (files (main sample_matter fs_two)) = main sample_matter fs_two"
    by (rule conjunct1)
  from inst h1 h2 h3 obtain posts :: "post list" where
    "bytes_at (files (main sample_matter fs_two_fresh)) outputFile
       = bytes_at (files (main sample_matter fs_two)) outputFile"
    "bytes_at (files (main sample_matter fs_two)) outputFile \<noteq> None"
    by blast
  with h1 h2 h3 b i show ?thesis by simp
qed

text \<open>
  C8. Over an existing root, the records of a completed scan are the records pushed for the
  subdirectories, in enumeration order. The calls of the run are the listing, the calls of
  every subdirectory in that order, then one \<open>writeFileSync\<close> of the whole array, then at
  most the log line: the write is the only one and comes after the whole scan. When the
  scan raises there is no write at all.
\<close>

theorem C8_enumeration_order_single_write:
  assumes "readdirSync fs postsDir = Inr entries"
  shows "(\<forall>e. fst (getPostsFromDir m fs postsDir) = Inl e \<longrightarrow>
            filter is_write (events (main m fs)) = [])
       \<and> (\<forall>posts. fst (getPostsFromDir m fs postsDir) = Inr posts \<longrightarrow>
            posts = concat (map (\<lambda>f. case fst (visit m fs postsDir f) of
                                        Inl e \<Rightarrow> [] | Inr ps \<Rightarrow> ps)
                                (filter isDirectory entries))
            \<and> (\<exists>json tail.
                  JSON_stringify (JArr (map post_object posts)) = Some json
                  \<and> events (main m fs) =
                      EvReaddir postsDir
                      # concat (map (\<lambda>f. snd (visit m fs postsDir f)) (filter isDirectory entries))
                      @ EvWrite outputFile json # tail
                  \<and> (tail = [] \<or> tail = [EvLog (log_line (length posts))])
                  \<and> filter is_write (events (main m fs)) = [EvWrite outputFile json]))"
proof (intro conjI allI impI)
  fix e assume "fst (getPostsFromDir m fs postsDir) = Inl e"
  from main_abort [OF this] show "filter is_write (events (main m fs)) = []"
    by (simp add: filter_is_write_scan)
next
  fix posts assume p: "fst (getPostsFromDir m fs postsDir) = Inr posts"
  then show "posts = concat (map (\<lambda>f. case fst (visit m fs postsDir f) of
                                        Inl e \<Rightarrow> [] | Inr ps \<Rightarrow> ps)
                                (filter isDirectory entries))"
    using getPosts_Inr [OF assms, of m posts] by simp
next
  fix posts assume p: "fst (getPostsFromDir m fs postsDir) = Inr posts"
  let ?scan = "snd (getPostsFromDir m fs postsDir)"
  have "fst (for_folders m fs postsDir (filter isDirectory entries) []) = Inr posts"
    using p by (simp add: getPosts_unfold [OF assms])
  from for_folders_events_Inr [OF this]
  have scan: "?scan = EvReaddir postsDir
        # concat (map (\<lambda>f. snd (visit m fs postsDir f)) (filter isDirectory entries))"
    by (simp add: getPosts_unfold [OF assms])
  have nw: "filter is_write ?scan = []" by (rule filter_is_write_scan)
  show "\<exists>json tail.
                  JSON_stringify (JArr (map post_object posts)) = Some json
                  \<and> events (main m fs) =
                      EvReaddir postsDir
                      # concat (map (\<lambda>f. snd (visit m fs postsDir f)) (filter isDirectory entries))
                      @ EvWrite outputFile json # tail
                  \<and> (tail = [] \<or> tail = [EvLog (log_line (length posts))])
                  \<and> filter is_write (events (main m fs)) = [EvWrite outputFile json]"
  proof (cases rule: main_cases [of m fs])
    case (abort e)
    with p show ?thesis by simp
  next
    case (write_failed posts' json e)
    with p have eq: "posts' = posts" by simp
    have ev: "events (main m fs) = ?scan @ [EvWrite outputFile json]"
      using write_failed(4) by simp
    have "JSON_stringify (JArr (map post_object posts)) = Some json
        \<and> events (main m fs) = EvReaddir postsDir
             # concat (map (\<lambda>f. snd (visit m fs postsDir f)) (filter isDirectory entries))
             @ EvWrite outputFile json # []
        \<and> ([] = [] \<or> [] = [EvLog (log_line (length posts))])
        \<and> filter is_write (events (main m fs)) = [EvWrite outputFile json]"
      using write_failed(2) eq ev nw scan by simp
    then show ?thesis by blast
  next
    case (written posts' json fs1)
    with p have eq: "posts' = posts" by simp
    have ev: "events (main m fs)
        = ?scan @ [EvWrite outputFile json, EvLog (log_line (length posts))]"
      using written(4) eq by simp
    have "JSON_stringify (JArr (map post_object posts)) = Some json
        \<and> events (main m fs) = EvReaddir postsDir
             # concat (map (\<lambda>f. snd (visit m fs postsDir f)) (filter isDirectory entries))
             @ EvWrite outputFile json # [EvLog (log_line (length posts))]
        \<and> ([EvLog (log_line (length posts))] = []
            \<or> [EvLog (log_line (length posts))] = [EvLog (log_line (length posts))])
        \<and> filter is_write (events (main m fs)) = [EvWrite outputFile json]"
      using written(2) eq ev nw scan by simp
    then show ?thesis by blast
  qed
qed

theorem C8_enumeration_order_single_write_witness:
  "readdirSync fs_two postsDir
     = Inr [\<lparr>name = ''01-post'', isDirectory = True\<rparr>, \<lparr>name = ''02-draft'', isDirectory = True\<rparr>]
   \<and> fst (getPostsFromDir sample_matter fs_two postsDir)
     = Inr [\<lparr>title = JStr ''A'', summary = JStr ''B'', url = ''/blog/01-post''\<rparr>]
   \<and> length (filter is_write (events (main sample_matter fs_two))) = 1
   \<and> is_write (events (main sample_matter fs_two) ! 5)
   \<and> fst (getPostsFromDir sample_matter fs_locked postsDir) = Inl EACCES
   \<and> filter is_write (events (main sample_matter fs_locked)) = []"
proof -
  let ?a = "\<lparr>name = ''01-post'', isDirectory = True\<rparr>"
  let ?b = "\<lparr>name = ''02-draft'', isDirectory = True\<rparr>"
  let ?l = "\<lparr>name = ''01-locked'', isDirectory = True\<rparr>"
  let ?q = "\<lparr>name = ''02-post'', isDirectory = True\<rparr>"
  let ?posts = "[\<lparr>title = JStr ''A'', summary = JStr ''B'', url = ''/blog/01-post''\<rparr>]"
  have h1: "readdirSync fs_two postsDir = Inr [?a, ?b]" by code_simp
  have h3: "fst (getPostsFromDir sample_matter fs_two postsDir) = Inr ?posts" by code_simp
  have l1: "readdirSync fs_locked postsDir = Inr [?l, ?q]" by code_simp
  have l3: "fst (getPostsFromDir sample_matter fs_locked postsDir) = Inl EACCES" by code_simp
  have va: "snd (visit sample_matter fs_two postsDir ?a)
      = [EvExists (postsDir @ [''01-post'', ''index.md'']), EvRead (postsDir @ [''01-post'', ''index.md''])]"
    by code_simp
  have vb: "snd (visit sample_matter fs_two postsDir ?b)
      = [EvExists (postsDir @ [''02-draft'', ''index.md'']), EvRead (postsDir @ [''02-draft'', ''index.md''])]"
    by code_simp
  from C8_enumeration_order_single_write [OF h1, of sample_matter] h3
  obtain json tail where
    ev: "events (main sample_matter fs_two) =
           EvReaddir postsDir
           # concat (map (\<lambda>f. snd (visit sample_matter fs_two postsDir f)) (filter isDirectory [?a, ?b]))
           @ EvWrite outputFile json # tail"
    and w: "filter is_write (events (main sample_matter fs_two)) = [EvWrite outputFile json]"
    by blast
  from w have one: "length (filter is_write (events (main sample_matter fs_two))) = 1" by simp
  from ev va vb have at: "is_write (events (main sample_matter fs_two) ! 5)" by simp
  from C8_enumeration_order_single_write [OF l1, of sample_matter] l3
  have none: "filter is_write (events (main sample_matter fs_locked)) = []" by blast
  from h1 h3 one at l3 none show ?thesis by simp
qed

text \<open>
  C9. After a successful run the output file holds \<open>[]\<close> or a bracketed, comma-separated
  list with one text per record, in order; each text is an object with exactly the members
  \<open>title\<close>, \<open>summary\<close> and \<open>url\<close>, whose first two values are the serialisations of
  the record's \<open>title\<close> and \<open>summary\<close>; and these are the very values \<open>data.title\<close>
  and \<open>data.summary\<close> of the front matter of one subdirectory. A value that is a string
  is written with the quoting of JSON strings and nothing else: every character but the
  double quote, the backslash and the control characters is written as it is, and the
  quoting is one-to-one, so the string reads back unchanged. A value that is not a string
  need not read back unchanged: an infinite number is written as \<open>null\<close> is, and a date
  as the string of its ISO form is.
\<close>

theorem C9_array_of_three_field_objects:
  assumes "status (main m fs) = 0"
  shows "(\<exists>posts texts.
           fst (getPostsFromDir m fs postsDir) = Inr posts
         \<and> bytes_at (files (main m fs)) outputFile =
             Some (if texts = [] then ''[]''
                   else ''['' @ [CHR 0x0A] @ ''  '' @ join ('','' @ [CHR 0x0A] @ ''  '') texts
                        @ [CHR 0x0A] @ '']'')
         \<and> list_all2 (\<lambda>p text. \<exists>t s.
               serialize ''    '' (title p) = Some t \<and> serialize ''    '' (summary p) = Some s \<and>
               (\<forall>a. title p = JStr a \<longrightarrow> t = quote a) \<and>
               (\<forall>b. summary p = JStr b \<longrightarrow> s = quote b) \<and>
               text = ''{'' @ [CHR 0x0A] @ ''    '' @ quote ''title'' @ '': '' @ t
                    @ '','' @ [CHR 0x0A] @ ''    '' @ quote ''summary'' @ '': '' @ s
                    @ '','' @ [CHR 0x0A] @ ''    '' @ quote ''url'' @ '': '' @ quote (url p)
                    @ [CHR 0x0A] @ ''  }'') posts texts
         \<and> (\<forall>p\<in>set posts. \<exists>entries f content data.
               readdirSync fs postsDir = Inr entries \<and> f \<in> set entries \<and> isDirectory f \<and>
               readFileSync fs (postsDir @ [name f, ''index.md'']) = Inr content \<and>
               m content = Inr data \<and>
               title p = get_prop data ''title'' \<and> summary p = get_prop data ''summary''))
       \<and> (\<forall>c. (32::nat) \<le> of_char c \<and> c \<noteq> CHR 0x22 \<and> c \<noteq> CHR 0x5C \<longrightarrow> quote_char c = [c])
       \<and> (\<forall>a b. quote a = quote b \<longrightarrow> a = b)
       \<and> (\<forall>i d. serialize i (JNum PosInf) = serialize i JNull
                \<and> serialize i (JNum NegInf) = serialize i JNull
                \<and> serialize i (JDate d) = serialize i (JStr d))"
    (is "?array \<and> ?plain \<and> ?one_to_one \<and> ?rewritten")
proof -
  from assms obtain posts json fs1 where 1: "fst (getPostsFromDir m fs postsDir) = Inr posts"
      "JSON_stringify (JArr (map post_object posts)) = Some json"
      "writeFileSync fs outputFile json = Inr fs1" "files (main m fs) = fs1"
    by (cases rule: main_cases [of m fs]) auto
  let ?text = "\<lambda>v. case serialize ''  '' v of None \<Rightarrow> ''null'' | Some s \<Rightarrow> s"
  let ?texts = "map (\<lambda>p. ?text (post_object p)) posts"
  let ?P = "\<lambda>p text. \<exists>t s.
               serialize ''    '' (title p) = Some t \<and> serialize ''    '' (summary p) = Some s \<and>
               (\<forall>a. title p = JStr a \<longrightarrow> t = quote a) \<and>
               (\<forall>b. summary p = JStr b \<longrightarrow> s = quote b) \<and>
               text = ''{'' @ [CHR 0x0A] @ ''    '' @ quote ''title'' @ '': '' @ t
                    @ '','' @ [CHR 0x0A] @ ''    '' @ quote ''summary'' @ '': '' @ s
                    @ '','' @ [CHR 0x0A] @ ''    '' @ quote ''url'' @ '': '' @ quote (url p)
                    @ [CHR 0x0A] @ ''  }''"
  have bytes: "bytes_at (files (main m fs)) outputFile = Some json"
    using write_bytes [OF 1(3)] 1(4) by simp
  have json: "json = (if ?texts = [] then ''[]''
                   else ''['' @ [CHR 0x0A] @ ''  '' @ join ('','' @ [CHR 0x0A] @ ''  '') ?texts
                        @ [CHR 0x0A] @ '']'')"
  proof -
    have "JSON_stringify (JArr (map post_object posts)) =
        Some (if ?texts = [] then ''[]''
              else ''['' @ [CHR 0x0A] @ ''  '' @ join ('','' @ [CHR 0x0A] @ ''  '') ?texts
                   @ [CHR 0x0A] @ '']'')"
      by (simp add: stringify_array o_def)
    with 1(2) show ?thesis by simp
  qed
  have each: "?P p (?text (post_object p))" if "p \<in> set posts" for p
  proof -
    from posts_truthy [OF 1(1) that] have "title p \<noteq> JUndefined" "summary p \<noteq> JUndefined"
      by (simp_all add: truthy_defined)
    then obtain t s where ts: "serialize (''  '' @ ''  '') (title p) = Some t"
        "serialize (''  '' @ ''  '') (summary p) = Some s"
      using serialize_defined by blast
    from serialize_post_object [OF ts] ts show ?thesis by auto
  qed
  have all2: "list_all2 ?P posts ?texts"
    using each by (simp add: list_all2_map2 list_all2_same)
  have prov: "\<forall>p\<in>set posts. \<exists>entries f content data.
               readdirSync fs postsDir = Inr entries \<and> f \<in> set entries \<and> isDirectory f \<and>
               readFileSync fs (postsDir @ [name f, ''index.md'']) = Inr content \<and>
               m content = Inr data \<and>
               title p = get_prop data ''title'' \<and> summary p = get_prop data ''summary''"
  proof
    fix p assume "p \<in> set posts"
    from getPosts_readdir [OF 1(1)] obtain entries where rd: "readdirSync fs postsDir = Inr entries"
      by blast
    let ?g = "\<lambda>f. case fst (visit m fs postsDir f) of Inl e \<Rightarrow> [] | Inr ps \<Rightarrow> ps"
    from rd 1(1) have "posts = concat (map ?g (filter isDirectory entries))"
      using getPosts_Inr [of fs postsDir entries m posts] by auto
    with \<open>p \<in> set posts\<close> obtain f where f: "f \<in> set entries" "isDirectory f"
        and pf: "p \<in> set (?g f)" by auto
    then obtain ps where ps: "fst (visit m fs postsDir f) = Inr ps" and pin: "p \<in> set ps"
      by (cases "fst (visit m fs postsDir f)") auto
    from visit_Inr_cases [OF ps] pin obtain content data where
      "readFileSync fs (postsDir @ [name f, ''index.md'']) = Inr content" "m content = Inr data"
      "p = \<lparr>title = get_prop data ''title'', summary = get_prop data ''summary'',
            url = ''/blog/'' @ name f\<rparr>"
      by (auto split: if_splits)
    with rd f show "\<exists>entries f content data.
               readdirSync fs postsDir = Inr entries \<and> f \<in> set entries \<and> isDirectory f \<and>
               readFileSync fs (postsDir @ [name f, ''index.md'']) = Inr content \<and>
               m content = Inr data \<and>
               title p = get_prop data ''title'' \<and> summary p = get_prop data ''summary''"
      by auto
  qed
  have array: ?array
  proof (intro exI conjI)
    show "fst (getPostsFromDir m fs postsDir) = Inr posts" by (rule 1(1))
    show "bytes_at (files (main m fs)) outputFile =
             Some (if ?texts = [] then ''[]''
                   else ''['' @ [CHR 0x0A] @ ''  '' @ join ('','' @ [CHR 0x0A] @ ''  '') ?texts
                        @ [CHR 0x0A] @ '']'')"
      using bytes json by simp
    show "list_all2 ?P posts ?texts" by (rule all2)
    show "\<forall>p\<in>set posts. \<exists>entries f content data.
               readdirSync fs postsDir = Inr entries \<and> f \<in> set entries \<and> isDirectory f \<and>
               readFileSync fs (postsDir @ [name f, ''index.md'']) = Inr content \<and>
               m content = Inr data \<and>
               title p = get_prop data ''title'' \<and> summary p = get_prop data ''summary''"
      by (rule prov)
  qed
  have plain: ?plain by (auto simp: quote_char_def)
  have one_to_one: ?one_to_one using quote_inj by blast
  have rewritten: ?rewritten by simp
  from array plain one_to_one rewritten show ?thesis by (intro conjI)
qed

theorem C9_array_of_three_field_objects_witness:
  "status (main sample_matter fs_custom) = 0
   \<and> bytes_at (files (main sample_matter fs_custom)) outputFile
     = Some (''['' @ [CHR 0x0A] @ ''  {'' @ [CHR 0x0A]
         @ ''    '' @ [CHR 0x22] @ ''title'' @ [CHR 0x22] @ '': '' @ [CHR 0x22] @ ''T'' @ [CHR 0x22]
         @ '','' @ [CHR 0x0A]
         @ ''    '' @ [CHR 0x22] @ ''summary'' @ [CHR 0x22] @ '': ''
         @ [CHR 0x22] @ ''<b>S</b>'' @ [CHR 0x22] @ '','' @ [CHR 0x0A]
         @ ''    '' @ [CHR 0x22] @ ''url'' @ [CHR 0x22] @ '': ''
         @ [CHR 0x22] @ ''/blog/04-custom'' @ [CHR 0x22] @ [CHR 0x0A]
         @ ''  }'' @ [CHR 0x0A] @ '']'')
   \<and> (\<exists>posts texts.
           fst (getPostsFromDir sample_matter fs_custom postsDir) = Inr posts
         \<and> bytes_at (files (main sample_matter fs_custom)) outputFile =
             Some (if texts = [] then ''[]''
                   else ''['' @ [CHR 0x0A] @ ''  '' @ join ('','' @ [CHR 0x0A] @ ''  '') texts
                        @ [CHR 0x0A] @ '']'')
         \<and> list_all2 (\<lambda>p text. \<exists>t s.
               serialize ''    '' (title p) = Some t \<and> serialize ''    '' (summary p) = Some s \<and>
               (\<forall>a. title p = JStr a \<longrightarrow> t = quote a) \<and>
               (\<forall>b. summary p = JStr b \<longrightarrow> s = quote b) \<and>
               text = ''{'' @ [CHR 0x0A] @ ''    '' @ quote ''title'' @ '': '' @ t
                    @ '','' @ [CHR 0x0A] @ ''    '' @ quote ''summary'' @ '': '' @ s
                    @ '','' @ [CHR 0x0A] @ ''    '' @ quote ''url'' @ '': '' @ quote (url p)
                    @ [CHR 0x0A] @ ''  }'') posts texts
         \<and> (\<forall>p\<in>set posts. \<exists>entries f content data.
               readdirSync fs_custom postsDir = Inr entries \<and> f \<in> set entries \<and> isDirectory f \<and>
               readFileSync fs_custom (postsDir @ [name f, ''index.md'']) = Inr content \<and>
               sample_matter content = Inr data \<and>
               title p = get_prop data ''title'' \<and> summary p = get_prop data ''summary''))
   \<and> quote_char (CHR ''<'') = ''<''"
proof -
  have h: "status (main sample_matter fs_custom) = 0" by code_simp
  have b: "bytes_at (files (main sample_matter fs_custom)) outputFile
     = Some (''['' @ [CHR 0x0A] @ ''  {'' @ [CHR 0x0A]
         @ ''    '' @ [CHR 0x22] @ ''title'' @ [CHR 0x22] @ '': '' @ [CHR 0x22] @ ''T'' @ [CHR 0x22]
         @ '','' @ [CHR 0x0A]
         @ ''    '' @ [CHR 0x22] @ ''summary'' @ [CHR 0x22] @ '': ''
         @ [CHR 0x22] @ ''<b>S</b>'' @ [CHR 0x22] @ '','' @ [CHR 0x0A]
         @ ''    '' @ [CHR 0x22] @ ''url'' @ [CHR 0x22] @ '': ''
         @ [CHR 0x22] @ ''/blog/04-custom'' @ [CHR 0x22] @ [CHR 0x0A]
         @ ''  }'' @ [CHR 0x0A] @ '']'')" by code_simp
  note inst = C9_array_of_three_field_objects [OF h]
  from inst have plain: "\<forall>c. (32::nat) \<le> of_char c \<and> c \<noteq> CHR 0x22 \<and> c \<noteq> CHR 0x5C
      \<longrightarrow> quote_char c = [c]"
    by (rule conjunct2 [THEN conjunct1])
  have "(32::nat) \<le> of_char (CHR ''<'') \<and> CHR ''<'' \<noteq> CHR 0x22 \<and> CHR ''<'' \<noteq> CHR 0x5C"
    by simp
  with plain have lt: "quote_char (CHR ''<'') = ''<''" by blast
  show ?thesis
    by (rule conjI [OF h conjI [OF b conjI [OF inst [THEN conjunct1] lt]]])
qed

text \<open>
  The claim as first stated, that the values are passed through verbatim, fails for values
  that are not strings. A \<open>title\<close> of \<open>.inf\<close> and a \<open>title\<close> that is a date both pass
  the guard; the file written is the one that the values \<open>null\<close> and the ISO string of the
  date would give.
\<close>

theorem C9_verbatim_counterexample:
  "sample_matter doc_inf = Inr [(''title'', JNum PosInf), (''summary'', JStr ''S'')]
   \<and> sample_matter doc_date
       = Inr [(''title'', JDate ''2024-01-01T00:00:00.000Z''), (''summary'', JStr ''S'')]
   \<and> fst (getPostsFromDir sample_matter fs_inf postsDir)
       = Inr [\<lparr>title = JNum PosInf, summary = JStr ''S'', url = ''/blog/06-inf''\<rparr>,
              \<lparr>title = JDate ''2024-01-01T00:00:00.000Z'', summary = JStr ''S'',
               url = ''/blog/07-date''\<rparr>]
   \<and> status (main sample_matter fs_inf) = 0
   \<and> bytes_at (files (main sample_matter fs_inf)) outputFile
       = JSON_stringify (JArr
           [JObj [(''title'', JNull), (''summary'', JStr ''S''), (''url'', JStr ''/blog/06-inf'')],
            JObj [(''title'', JStr ''2024-01-01T00:00:00.000Z''), (''summary'', JStr ''S''),
                  (''url'', JStr ''/blog/07-date'')]])
   \<and> serialize ''    '' (JNum PosInf) = Some ''null''
   \<and> JNum PosInf \<noteq> JNull
   \<and> JDate ''2024-01-01T00:00:00.000Z'' \<noteq> JStr ''2024-01-01T00:00:00.000Z''"
  by code_simp

text \<open>
  C10. When the names listed for the root are pairwise distinct and the scan completes, the
  urls of the records are pairwise distinct, at most one record carries the url of any
  entry, no call of the scan is made twice, and the \<open>index.md\<close> of every subdirectory is
  looked for.
\<close>

theorem C10_urls_pairwise_distinct:
  assumes "readdirSync fs dir = Inr entries" and "distinct (map name entries)"
    and "fst (getPostsFromDir m fs dir) = Inr posts"
  shows "distinct (map url posts)
       \<and> (\<forall>f\<in>set entries. length (filter (\<lambda>p. url p = ''/blog/'' @ name f) posts) \<le> 1)
       \<and> distinct (snd (getPostsFromDir m fs dir))
       \<and> (\<forall>f\<in>set entries. isDirectory f \<longrightarrow>
             EvExists (dir @ [name f, ''index.md'']) \<in> set (snd (getPostsFromDir m fs dir)))"
proof -
  let ?g = "\<lambda>f. case fst (visit m fs dir f) of Inl e \<Rightarrow> [] | Inr ps \<Rightarrow> ps"
  let ?fl = "filter isDirectory entries"
  from assms(1,3)
  have ok: "\<forall>f\<in>set entries. isDirectory f \<longrightarrow> (\<exists>ps. fst (visit m fs dir f) = Inr ps)"
    and posts: "posts = concat (map ?g ?fl)"
    using getPosts_Inr [of fs dir entries m posts] by auto
  have d: "distinct (map name ?fl)" using assms(2) by (simp add: distinct_map_filter)
  have shape: "\<And>f. f \<in> set ?fl \<Longrightarrow> ?g f = [] \<or> (\<exists>p. ?g f = [p] \<and> url p = ''/blog/'' @ name f)"
  proof -
    fix f assume "f \<in> set ?fl"
    with ok obtain ps where ps: "fst (visit m fs dir f) = Inr ps" by auto
    with visit_posts [OF ps] show "?g f = [] \<or> (\<exists>p. ?g f = [p] \<and> url p = ''/blog/'' @ name f)"
      by simp
  qed
  from distinct_urls [of ?fl ?g, OF d shape] have du: "distinct (map url posts)"
    unfolding posts by simp
  have "fst (for_folders m fs dir ?fl []) = Inr posts"
    using assms(3) by (simp add: getPosts_unfold [OF assms(1)])
  from for_folders_events_Inr [OF this]
  have scan: "snd (getPostsFromDir m fs dir)
      = EvReaddir dir # concat (map (\<lambda>f. snd (visit m fs dir f)) ?fl)"
    by (simp add: getPosts_unfold [OF assms(1)])
  have nr: "EvReaddir dir \<notin> set (concat (map (\<lambda>f. snd (visit m fs dir f)) ?fl))"
    using visit_events_mem [of "EvReaddir dir" m fs dir ?fl] by auto
  have de: "distinct (snd (getPostsFromDir m fs dir))"
    using scan nr distinct_visit_events [OF d, of m fs dir] by simp
  have vis: "\<forall>f\<in>set entries. isDirectory f \<longrightarrow>
             EvExists (dir @ [name f, ''index.md'']) \<in> set (snd (getPostsFromDir m fs dir))"
  proof (intro ballI impI)
    fix f assume "f \<in> set entries" "isDirectory f"
    then have "f \<in> set ?fl" by simp
    moreover have "EvExists (dir @ [name f, ''index.md'']) \<in> set (snd (visit m fs dir f))"
      by (simp add: visit_events)
    ultimately show "EvExists (dir @ [name f, ''index.md'']) \<in> set (snd (getPostsFromDir m fs dir))"
      unfolding scan by auto
  qed
  from du distinct_filter_le_one [of url posts] de vis show ?thesis by simp
qed

theorem C10_urls_pairwise_distinct_witness:
  "readdirSync fs_two postsDir
     = Inr [\<lparr>name = ''01-post'', isDirectory = True\<rparr>, \<lparr>name = ''02-draft'', isDirectory = True\<rparr>]
   \<and> distinct (map name [\<lparr>name = ''01-post'', isDirectory = True\<rparr>,
                          \<lparr>name = ''02-draft'', isDirectory = True\<rparr>])
   \<and> fst (getPostsFromDir sample_matter fs_two postsDir)
     = Inr [\<lparr>title = JStr ''A'', summary = JStr ''B'', url = ''/blog/01-post''\<rparr>]
   \<and> distinct (map url [\<lparr>title = JStr ''A'', summary = JStr ''B'', url = ''/blog/01-post''\<rparr>])
   \<and> distinct (snd (getPostsFromDir sample_matter fs_two postsDir))
   \<and> EvExists (postsDir @ [''02-draft'', ''index.md''])
       \<in> set (snd (getPostsFromDir sample_matter fs_two postsDir))"
proof -
  let ?a = "\<lparr>name = ''01-post'', isDirectory = True\<rparr>"
  let ?b = "\<lparr>name = ''02-draft'', isDirectory = True\<rparr>"
  let ?posts = "[\<lparr>title = JStr ''A'', summary = JStr ''B'', url = ''/blog/01-post''\<rparr>]"
  have h1: "readdirSync fs_two postsDir = Inr [?a, ?b]" by code_simp
  have h2: "distinct (map name [?a, ?b])" by simp
  have h3: "fst (getPostsFromDir sample_matter fs_two postsDir) = Inr ?posts" by code_simp
  from C10_urls_pairwise_distinct [OF h1 h2 h3] h1 h2 h3 show ?thesis by simp
qed

end
